theory Spec2Isabelle
  imports Main "HOL-Library.Sublist" "HOL-Library.AList"
begin

section \<open>Strings and paths\<close>

text \<open>
  A Go string is a sequence of bytes: \<open>len\<close> counts bytes and \<open>s[:n]\<close> slices
  bytes. It is modelled as a \<^typ>\<open>string\<close>, one \<^typ>\<open>char\<close> per byte.
\<close>

text \<open>
  \<open>filepath.Ext\<close>: the suffix beginning at the final dot in the final
  slash-separated element of the path, empty if there is no dot. The library scans the
  path from its last byte towards the first; \<open>ExtScan\<close> is that loop, on the reversed
  path, with the bytes already passed collected in \<open>suf\<close>.
\<close>

fun ExtScan :: "string \<Rightarrow> string \<Rightarrow> string" where
  "ExtScan [] suf = []"
| "ExtScan (c # r) suf =
     (if c = CHR ''/'' then []
      else if c = CHR ''.'' then c # suf
      else ExtScan r (c # suf))"

definition Ext :: "string \<Rightarrow> string" where
  "Ext path = ExtScan (rev path) []"

section \<open>The filename-safety transform\<close>

text \<open>
  \<^verbatim>\<open>const ll = "0123456789abcdefghijklmnopqrstuvwxyz"\<close>
\<close>

definition ll :: string where
  "ll = ''0123456789abcdefghijklmnopqrstuvwxyz''"

text \<open>
  \<open>rand.Intn(n)\<close> returns a number in \<open>[0, n)\<close>. The generator is reseeded from the
  clock before every draw, so the draws are an input of the model: \<open>rnd i\<close> is the raw
  value behind the \<open>i\<close>-th draw.
\<close>

definition Intn :: "nat \<Rightarrow> nat \<Rightarrow> nat" where
  "Intn raw n = raw mod n"

definition randString :: "(nat \<Rightarrow> nat) \<Rightarrow> nat \<Rightarrow> string" where
  "randString rnd n = map (\<lambda>i. ll ! Intn (rnd i) (length ll)) [0..<n]"

text \<open>
  \<^verbatim>\<open>
  func shorten(lg *zap.Logger, name string) string {
      if len(name) < 240 { return name }
      ext := filepath.Ext(name)
      name = name[:230] + randString(5) + ext
      return name
  }
  \<close>
  The logger only reports the renaming and is left out.
\<close>

definition shorten :: "(nat \<Rightarrow> nat) \<Rightarrow> string \<Rightarrow> string" where
  "shorten rnd name =
     (if length name < 240 then name
      else take 230 name @ randString rnd 5 @ Ext name)"

text \<open>Concrete inputs used by the examples below.\<close>

definition zeroDraws :: "nat \<Rightarrow> nat" where
  "zeroDraws i = 0"

definition name240 :: string where
  "name240 = replicate 236 (CHR ''a'') @ ''.log''"

definition name239 :: string where
  "name239 = replicate 235 (CHR ''a'') @ ''.log''"


section \<open>Library functions on strings\<close>

text \<open>
  \<open>strings.Split(s, "\n")\<close>: the pieces of \<open>s\<close> between line feeds, in order. An
  input with \<open>n\<close> line feeds has \<open>n + 1\<close> pieces, the last one empty when the input
  ends with a line feed. \<open>cur\<close> is the piece being read.
\<close>

fun SplitScan :: "string \<Rightarrow> string \<Rightarrow> string list" where
  "SplitScan cur [] = [cur]"
| "SplitScan cur (c # cs) =
     (if c = CHR 0x0A then cur # SplitScan [] cs else SplitScan (cur @ [c]) cs)"

definition SplitLines :: "string \<Rightarrow> string list" where
  "SplitLines s = SplitScan [] s"

text \<open>
  \<open>utf8.DecodeRuneInString\<close>: the code point at the head of a byte string and the
  number of bytes it takes. A byte that does not start a well-formed encoding decodes
  to \<open>RuneError\<close> with width 1. The second byte must be in a range that depends on the
  first one (this excludes over-long encodings, surrogates and code points beyond
  \<open>U+10FFFF\<close>); later bytes must be in \<open>0x80..0xBF\<close>.
\<close>

definition RuneError :: nat where
  "RuneError = 65533"

definition DecodeRune :: "string \<Rightarrow> nat \<times> nat" where
  "DecodeRune s =
     (case s of
        [] \<Rightarrow> (RuneError, 0)
      | c0 # r \<Rightarrow>
          let b0 = (of_char c0 :: nat) in
          if b0 < 128 then (b0, 1)
          else if b0 < 194 \<or> 244 < b0 then (RuneError, 1)
          else
            let sz = (if b0 < 224 then 2 else if b0 < 240 then 3 else 4) :: nat;
                lo = (if b0 = 224 then 160 else if b0 = 240 then 144 else 128) :: nat;
                hi = (if b0 = 237 then 159 else if b0 = 244 then 143 else 191) :: nat
            in
            if length s < sz then (RuneError, 1)
            else
              let b1 = (of_char (s ! 1) :: nat) in
              if b1 < lo \<or> hi < b1 then (RuneError, 1)
              else if sz \<le> 2 then ((b0 mod 32) * 64 + b1 mod 64, 2)
              else
                let b2 = (of_char (s ! 2) :: nat) in
                if b2 < 128 \<or> 191 < b2 then (RuneError, 1)
                else if sz \<le> 3 then ((b0 mod 16) * 4096 + (b1 mod 64) * 64 + b2 mod 64, 3)
                else
                  let b3 = (of_char (s ! 3) :: nat) in
                  if b3 < 128 \<or> 191 < b3 then (RuneError, 1)
                  else ((b0 mod 8) * 262144 + (b1 mod 64) * 4096 + (b2 mod 64) * 64
                          + b3 mod 64, 4))"

text \<open>
  \<open>unicode.IsSpace\<close>: in Latin-1 the characters tab, line feed, vertical tab, form
  feed, carriage return, space, \<open>U+0085\<close> and \<open>U+00A0\<close>; beyond Latin-1 the rest of
  the White_Space property.
\<close>

definition IsSpace :: "nat \<Rightarrow> bool" where
  "IsSpace r =
     (if r \<le> 255 then r \<in> {9, 10, 11, 12, 13, 32, 133, 160}
      else r = 5760 \<or> (8192 \<le> r \<and> r \<le> 8202) \<or> r = 8232 \<or> r = 8233
           \<or> r = 8239 \<or> r = 8287 \<or> r = 12288)"

text \<open>
  \<open>strings.Fields\<close>: the maximal runs of non-space code points, in order. The library
  walks the string one code point at a time; a space closes the field that is open, any
  other code point opens a field or extends it. \<open>cur\<close> holds the bytes of the open field
  (empty when none is open). The head code point has width \<open>w \<ge> 1\<close>, so the bytes left
  after it are \<open>drop (w - 1) cs\<close>. (For an all-ASCII string the library takes a
  byte-wise shortcut with the same result.)
\<close>

fun FieldsScan :: "string \<Rightarrow> string \<Rightarrow> string list" where
  "FieldsScan cur [] = (if cur = [] then [] else [cur])"
| "FieldsScan cur (c # cs) =
     (case DecodeRune (c # cs) of (r, w) \<Rightarrow>
        if IsSpace r then (if cur = [] then [] else [cur]) @ FieldsScan [] (drop (w - 1) cs)
        else FieldsScan (cur @ c # take (w - 1) cs) (drop (w - 1) cs))"

definition Fields :: "string \<Rightarrow> string list" where
  "Fields s = FieldsScan [] s"

text \<open>
  \<open>strings.ReplaceAll(s, old, new)\<close> for a non-empty \<open>old\<close> (as in every call of the
  code): one pass from the left, replacing each occurrence found and resuming after it.
\<close>

fun ReplaceAll :: "string \<Rightarrow> string \<Rightarrow> string \<Rightarrow> string" where
  "ReplaceAll [] old new = []"
| "ReplaceAll (c # cs) old new =
     (if prefix old (c # cs) then new @ ReplaceAll (drop (length old - 1) cs) old new
      else c # ReplaceAll cs old new)"

text \<open>
  \<open>strings.ToLower\<close> on ASCII: the letters \<open>A..Z\<close> move to \<open>a..z\<close>, every other byte
  stays. The code applies it to a string of ASCII letters and digits only.
\<close>

definition lowerByte :: "char \<Rightarrow> char" where
  "lowerByte c =
     (let n = (of_char c :: nat) in if 65 \<le> n \<and> n \<le> 90 then char_of (n + 32) else c)"

definition ToLower :: "string \<Rightarrow> string" where
  "ToLower s = map lowerByte s"

text \<open>
  \<^verbatim>\<open>var regex = regexp.MustCompile("[^a-zA-Z0-9]+")\<close> with
  \<open>regex.ReplaceAllString(s, "")\<close>: every run of bytes that are not ASCII letters or
  digits is deleted, so exactly the ASCII letters and digits stay.
\<close>

definition isAlnum :: "char \<Rightarrow> bool" where
  "isAlnum c =
     (let n = (of_char c :: nat) in
      (97 \<le> n \<and> n \<le> 122) \<or> (65 \<le> n \<and> n \<le> 90) \<or> (48 \<le> n \<and> n \<le> 57))"

definition regexStrip :: "string \<Rightarrow> string" where
  "regexStrip s = filter isAlnum s"

text \<open>
  \<open>filepath.Base\<close>: the last element of the path, after trailing slashes are dropped;
  \<open>"."\<close> for the empty path and \<open>"/"\<close> for a path of slashes only.
\<close>

definition Base :: "string \<Rightarrow> string" where
  "Base path =
     (if path = [] then ''.''
      else
        let p = rev (dropWhile (\<lambda>c. c = CHR ''/'') (rev path));
            e = rev (takeWhile (\<lambda>c. c \<noteq> CHR ''/'') (rev p))
        in if e = [] then ''/'' else e)"

section \<open>Data model\<close>

text \<open>
  The errors of the package. \<open>Err\<close> is an error handed back by a collaborator (the
  remote session, the file system, the configuration store); the others are built by
  \<open>fmt.Errorf\<close> in the code, and carry the arguments of the format string.
\<close>

datatype error =
    Err string
  | NotEnabled bool
  | RunFailed string string error
  | CreateFailed string string error
  | WriteFailed string string error
  | UnknownGroup string
  | Redundant string string

text \<open>
  \<^verbatim>\<open>
  type instanceLogs struct {
      mngName    string
      instanceID string
      paths      []string
      err        error
  }
  \<close>
  A field left out of a composite literal has its zero value: the empty string, the
  empty slice, no error.
\<close>

record instanceLogs =
  mngName :: string
  instanceID :: string
  paths :: "string list"
  err :: "error option"

text \<open>The fields of \<open>ec2config.Instance\<close> that the code reads.\<close>

record Instance =
  PublicIP :: string
  PublicDNSName :: string

text \<open>
  One entry of \<open>StatusManagedNodeGroups.Nodes\<close>, with the two fields the code reads:
  the instances of the group and the collected files per instance. A Go map is an
  association list with one pair per key; \<open>Logs\<close> may be the nil map.
\<close>

record MNG =
  Instances :: "(string \<times> Instance) list"
  Logs :: "(string \<times> string list) list option"

section \<open>The per-instance collector\<close>

text \<open>
  What a collector does to the outside, in order: probes and waits on the rate limiter,
  commands run on the remote session, files created and written, and the record sent
  on the result channel.
\<close>

datatype event =
    Allow bool
  | Wait
  | Run string
  | Create string
  | Write string string
  | Send instanceLogs

text \<open>
  The collaborators of one collector. Each answer may depend on the moment of the call,
  given as the number of events so far.
  \<^item> \<open>stopped\<close>: the stop channel is closed when the collector starts;
  \<^item> \<open>allow\<close>: the answer of \<open>rateLimiter.Allow()\<close>;
  \<^item> \<open>sshNew\<close>, \<open>connect\<close>: the errors of \<open>ssh.New\<close> and \<open>sh.Connect\<close>, if any;
  \<^item> \<open>run\<close>: the error or the output of \<open>sh.Run(cmd)\<close>;
  \<^item> \<open>osCreate\<close>, \<open>fWrite\<close>: the errors of \<open>os.Create\<close> and \<open>f.Write\<close>, if any;
  \<^item> \<open>draws\<close>: the random draws;
  \<^item> \<open>rangeOrder\<close>: the order in which \<open>range\<close> visits the entries of a map;
  \<^item> \<open>Join\<close>: \<open>filepath.Join\<close> of the run directory and a file name.
\<close>

record env =
  stopped :: bool
  allow :: "nat \<Rightarrow> bool"
  sshNew :: "Instance \<Rightarrow> error option"
  connect :: "error option"
  run :: "nat \<Rightarrow> string \<Rightarrow> error + string"
  osCreate :: "nat \<Rightarrow> string \<Rightarrow> error option"
  fWrite :: "nat \<Rightarrow> string \<Rightarrow> string \<Rightarrow> error option"
  draws :: "nat \<Rightarrow> nat \<Rightarrow> nat"
  rangeOrder :: "(string \<times> string) list \<Rightarrow> (string \<times> string) list"
  Join :: "string \<Rightarrow> string \<Rightarrow> string"

text \<open>The events so far and the record under construction (\<open>data\<close> in the code).\<close>

record wstate =
  trace :: "event list"
  data :: instanceLogs

text \<open>
  \<^verbatim>\<open>
  if !rateLimiter.Allow() {
      werr := rateLimiter.Wait(context.Background())
  }
  \<close>
\<close>

definition gate :: "env \<Rightarrow> event list \<Rightarrow> event list" where
  "gate e tr = (if allow e (length tr) then tr @ [Allow True] else tr @ [Allow False, Wait])"

text \<open>
  The rate-limiter gate, then \<open>sh.Run(cmd)\<close>; a failure is wrapped as
  \<open>"failed to run command %q for %q (error %v)"\<close>.
\<close>

definition gatedRun :: "env \<Rightarrow> string \<Rightarrow> string \<Rightarrow> wstate \<Rightarrow> (error + string) \<times> wstate" where
  "gatedRun e instID cmd s =
     (let tr = gate e (trace s) in
      (case run e (length tr) cmd of
         Inl oerr \<Rightarrow> Inl (RunFailed cmd instID oerr)
       | Inr out \<Rightarrow> Inr out,
       s\<lparr>trace := tr @ [Run cmd]\<rparr>))"

text \<open>
  \<^verbatim>\<open>
  fpath := filepath.Join(logsDir, shorten(ts.cfg.Logger, pfx+fileName))
  f, err := os.Create(fpath)
  if err != nil { rch <- instanceLogs{..., err: ...}; return }
  if _, err = f.Write(out); err != nil { rch <- instanceLogs{..., err: ...}; return }
  data.paths = append(data.paths, fpath)
  \<close>
  The error, if any, is handed to the caller, which sends the record.
\<close>

definition saveFile ::
  "env \<Rightarrow> string \<Rightarrow> string \<Rightarrow> string \<Rightarrow> string \<Rightarrow> string \<Rightarrow> wstate \<Rightarrow> error option \<times> wstate" where
  "saveFile e logsDir pfx instID fileName out s =
     (let t = length (trace s);
          fpath = Join e logsDir (shorten (draws e t) (pfx @ fileName))
      in case osCreate e t fpath of
           Some er \<Rightarrow>
             (Some (CreateFailed fpath instID er), s\<lparr>trace := trace s @ [Create fpath]\<rparr>)
         | None \<Rightarrow>
             (case fWrite e t fpath out of
                Some er \<Rightarrow>
                  (Some (WriteFailed fpath instID er),
                   s\<lparr>trace := trace s @ [Create fpath, Write fpath out]\<rparr>)
              | None \<Rightarrow>
                  (None,
                   s\<lparr>trace := trace s @ [Create fpath, Write fpath out],
                     data := (data s)\<lparr>paths := paths (data s) @ [fpath]\<rparr>\<rparr>)))"

text \<open>One command of a command-to-file-name map: gate, run, save.\<close>

definition fetchFile ::
  "env \<Rightarrow> string \<Rightarrow> string \<Rightarrow> string \<Rightarrow> string \<Rightarrow> string \<Rightarrow> wstate \<Rightarrow> error option \<times> wstate" where
  "fetchFile e logsDir pfx instID cmd fileName s =
     (case gatedRun e instID cmd s of
        (Inl er, s1) \<Rightarrow> (Some er, s1)
      | (Inr out, s1) \<Rightarrow> saveFile e logsDir pfx instID fileName out s1)"

text \<open>
  \<^verbatim>\<open>for cmd, fileName := range commandToFileName { ... }\<close>, on the entries in the
  order of the visit; the first failure ends the collector.
\<close>

fun fetchAll ::
  "env \<Rightarrow> string \<Rightarrow> string \<Rightarrow> string \<Rightarrow> (string \<times> string) list \<Rightarrow> wstate \<Rightarrow> error option \<times> wstate" where
  "fetchAll e logsDir pfx instID [] s = (None, s)"
| "fetchAll e logsDir pfx instID ((cmd, fileName) # rest) s =
     (case fetchFile e logsDir pfx instID cmd fileName s of
        (Some er, s1) \<Rightarrow> (Some er, s1)
      | (None, s1) \<Rightarrow> fetchAll e logsDir pfx instID rest s1)"

text \<open>
  The entry a line of the service listing adds to \<open>svcCmdToFileName\<close>, if any:
  \<^verbatim>\<open>
  fields := strings.Fields(line)
  if len(fields) == 0 || fields[0] == "" || len(fields) < 5 { continue }
  if fields[1] == "not-found" { continue }
  if fields[2] == "inactive" { continue }
  svc := fields[0]
  svcCmd := "sudo journalctl --no-pager --output=cat -u " + svc
  svcFileName := svc + ".out.log"
  \<close>
\<close>

definition svcLine :: "string \<Rightarrow> (string \<times> string) option" where
  "svcLine line =
     (let fields = Fields line in
      if length fields = 0 then None
      else if fields ! 0 = [] then None
      else if length fields < 5 then None
      else if fields ! 1 = ''not-found'' then None
      else if fields ! 2 = ''inactive'' then None
      else
        let svc = fields ! 0 in
        Some (''sudo journalctl --no-pager --output=cat -u '' @ svc, svc @ ''.out.log''))"

text \<open>
  \<^verbatim>\<open>
  svcCmdToFileName := make(map[string]string)
  for _, line := range strings.Split(string(out), "\n") { ...; svcCmdToFileName[svcCmd] = svcFileName }
  \<close>
\<close>

definition svcCmdToFileName :: "string \<Rightarrow> (string \<times> string) list" where
  "svcCmdToFileName out =
     fold (\<lambda>line m. case svcLine line of None \<Rightarrow> m | Some (k, v) \<Rightarrow> AList.update k v m)
       (SplitLines out) []"

text \<open>
  \<^verbatim>\<open>
  for _, line := range strings.Split(string(out), "\n") {
      if len(line) == 0 { continue }
      varLogCmdToFileName["sudo cat " + line] = filepath.Base(line)
  }
  \<close>
\<close>

definition varLogCmdToFileName :: "string \<Rightarrow> (string \<times> string) list" where
  "varLogCmdToFileName out =
     fold (\<lambda>line m. if length line = 0 then m
                     else AList.update (''sudo cat '' @ line) (Base line) m)
       (SplitLines out) []"

definition listCmd :: string where
  "listCmd = ''sudo systemctl list-units -t service --no-pager --no-legend --all''"

definition eniCmd :: string where
  "eniCmd = ''curl http://localhost:61679/v1/enis''"

definition findCmd :: string where
  "findCmd = ''sudo find /var/log ! -type d''"

text \<open>
  The stages after the connection: the given commands, the services, the ENI probe, the
  files under \<open>/var/log\<close>. The result is the error of the first failing step, if any.
\<close>

definition stages ::
  "env \<Rightarrow> string \<Rightarrow> string \<Rightarrow> string \<Rightarrow> (string \<times> string) list \<Rightarrow> wstate \<Rightarrow> error option \<times> wstate" where
  "stages e logsDir pfx instID commandToFileName s0 =
     (case fetchAll e logsDir pfx instID (rangeOrder e commandToFileName) s0 of
        (Some er, s1) \<Rightarrow> (Some er, s1)
      | (None, s1) \<Rightarrow>
     (case gatedRun e instID listCmd s1 of
        (Inl er, s2) \<Rightarrow> (Some er, s2)
      | (Inr out, s2) \<Rightarrow>
     (case fetchAll e logsDir pfx instID (rangeOrder e (svcCmdToFileName out)) s2 of
        (Some er, s3) \<Rightarrow> (Some er, s3)
      | (None, s3) \<Rightarrow>
     (case fetchFile e logsDir pfx instID eniCmd ''v1-enis'' s3 of
        (Some er, s4) \<Rightarrow> (Some er, s4)
      | (None, s4) \<Rightarrow>
     (case gatedRun e instID findCmd s4 of
        (Inl er, s5) \<Rightarrow> (Some er, s5)
      | (Inr out', s5) \<Rightarrow>
          fetchAll e logsDir pfx instID (rangeOrder e (varLogCmdToFileName out')) s5)))))"

text \<open>
  The body of the goroutine started for one instance; the result is everything it did.
  A collector that finds the stop channel closed returns at once. Otherwise it passes
  the gate, opens the session, runs the stages and sends one record: the error of
  \<open>ssh.New\<close> or \<open>sh.Connect\<close> with the group name only, the error of a later step
  with the group name and the instance ID, or \<open>data\<close>. The instance ID, the run
  directory, the prefix and the instance are arguments of the goroutine. The group name
  is not: the goroutine reads the variable \<open>name\<close> of the launching loop when it builds
  a record. The model passes that value as the argument \<open>name\<close>; it is the group of
  the instance when each iteration of the loop has its own variable.
\<close>

definition collector ::
  "env \<Rightarrow> string \<Rightarrow> string \<Rightarrow> string \<Rightarrow> string \<Rightarrow> Instance \<Rightarrow> (string \<times> string) list \<Rightarrow> event list" where
  "collector e name instID logsDir pfx iv commandToFileName =
     (if stopped e then []
      else
        let tr0 = gate e [] in
        case sshNew e iv of
          Some er \<Rightarrow> tr0 @ [Send \<lparr>mngName = name, instanceID = [], paths = [], err = Some er\<rparr>]
        | None \<Rightarrow>
        (case connect e of
          Some er \<Rightarrow> tr0 @ [Send \<lparr>mngName = name, instanceID = [], paths = [], err = Some er\<rparr>]
        | None \<Rightarrow>
        (case stages e logsDir pfx instID commandToFileName
                \<lparr>trace = tr0,
                 data = \<lparr>mngName = name, instanceID = instID, paths = [], err = None\<rparr>\<rparr> of
          (Some er, s) \<Rightarrow>
            trace s @ [Send \<lparr>mngName = name, instanceID = instID, paths = [], err = Some er\<rparr>]
        | (None, s) \<Rightarrow> trace s @ [Send (data s)])))"

text \<open>The records a collector sent.\<close>

fun sentOf :: "event list \<Rightarrow> instanceLogs list" where
  "sentOf [] = []"
| "sentOf (Send d # tr) = d # sentOf tr"
| "sentOf (ev # tr) = sentOf tr"

text \<open>
  Every \<open>Run\<close> comes right after a passed gate: after \<open>Allow True\<close>, or after
  \<open>Allow False\<close> and the \<open>Wait\<close> that follows it. \<open>prev\<close> holds the events before
  the rest of the trace, the latest first.
\<close>

fun gatedFrom :: "event list \<Rightarrow> event list \<Rightarrow> bool" where
  "gatedFrom prev [] = True"
| "gatedFrom prev (Run cmd # tr) =
     ((case prev of
         Allow True # p \<Rightarrow> True
       | Wait # Allow False # p \<Rightarrow> True
       | _ \<Rightarrow> False) \<and> gatedFrom (Run cmd # prev) tr)"
| "gatedFrom prev (ev # tr) = gatedFrom (ev # prev) tr"

definition gated :: "event list \<Rightarrow> bool" where
  "gated tr = gatedFrom [] tr"

section \<open>The naming prefix\<close>

text \<open>
  \<^verbatim>\<open>
  dns := strings.ToLower(regex.ReplaceAllString(iv.PublicDNSName, ""))
  dns = strings.ReplaceAll(dns, "ec2", "")
  dns = strings.ReplaceAll(dns, "compute.amazonaws", "")
  dns = strings.ReplaceAll(dns, "amazonaws", "")
  if len(dns) > 7 { dns = dns[:7] }
  pfx := instID + "-" + dns + "-"
  \<close>
\<close>

definition dnsPart :: "string \<Rightarrow> string" where
  "dnsPart publicDNSName =
     (let dns = ToLower (regexStrip publicDNSName);
          dns = ReplaceAll dns ''ec2'' [];
          dns = ReplaceAll dns ''compute.amazonaws'' [];
          dns = ReplaceAll dns ''amazonaws'' []
      in if length dns > 7 then take 7 dns else dns)"

definition pfxOf :: "string \<Rightarrow> Instance \<Rightarrow> string" where
  "pfxOf instID iv = instID @ ''-'' @ dnsPart (PublicDNSName iv) @ ''-''"

text \<open>
  The sanitization as the specification words it: lower-case the name, remove what is
  not a letter or a digit, remove the three substrings, clip to seven characters.
\<close>

definition specSanitize :: "string \<Rightarrow> string" where
  "specSanitize publicDNSName =
     take 7
       (ReplaceAll
          (ReplaceAll
             (ReplaceAll (filter isAlnum (map lowerByte publicDNSName)) ''ec2'' [])
             ''compute.amazonaws'' [])
          ''amazonaws'' [])"

section \<open>The orchestrator and the state aggregator\<close>

text \<open>
  What the top-level operation does to the outside: directories made, the lock taken
  and released, collectors started (group name, instance ID).
\<close>

datatype sysEvent =
    MkdirAll string nat
  | TempDir string string
  | Lock
  | Unlock
  | Launch string string

text \<open>
  The state of the tester: Fleet Status in memory (\<open>Nodes\<close>), what the last successful
  \<open>Sync\<close> wrote (\<open>persisted\<close>), the number of \<open>Sync\<close> calls so far, the two counters of
  the drain loop (\<open>received\<close> counts the records taken from the channel, \<open>total\<close> the
  files), and the events so far.
\<close>

record tstate =
  Nodes :: "(string \<times> MNG) list"
  persisted :: "(string \<times> MNG) list"
  syncs :: nat
  received :: nat
  total :: nat
  events :: "sysEvent list"

text \<open>
  The configuration and the collaborators of the orchestrator.
  \<^item> \<open>Enable\<close>, \<open>LogDir\<close>, \<open>Name\<close>: fields of the configuration;
  \<^item> \<open>mkdirAll\<close>: the error of \<open>os.MkdirAll(dir, mode)\<close>, if any;
  \<^item> \<open>tempDir\<close>: the error or the directory of \<open>ioutil.TempDir(dir, prefix)\<close>;
  \<^item> \<open>workerEnv\<close>: the collaborators of the collector of a group and an instance;
  \<^item> \<open>sched\<close>: what each \<open>select\<close> of the drain loop receives, in order, given the
    records the collectors send;
  \<^item> \<open>syncErr\<close>: the error of the \<open>n\<close>-th \<open>Sync\<close>, if any.
\<close>

datatype sel = Recv instanceLogs | Stop

record cfg =
  Enable :: bool
  LogDir :: string
  Name :: string
  mkdirAll :: "string \<Rightarrow> nat \<Rightarrow> error option"
  tempDir :: "string \<Rightarrow> string \<Rightarrow> error + string"
  workerEnv :: "string \<Rightarrow> string \<Rightarrow> env"
  sched :: "instanceLogs list \<Rightarrow> sel list"
  syncErr :: "nat \<Rightarrow> error option"

text \<open>
  Modelled from the spec: \<open>EKSConfig.Sync\<close> is not among the sources. The specification
  has it flush Fleet Status to durable storage and return an error or none; a failed
  flush is taken to leave the stored copy as it was.
\<close>

definition Sync :: "cfg \<Rightarrow> tstate \<Rightarrow> error option \<times> tstate" where
  "Sync c s =
     (case syncErr c (syncs s) of
        Some er \<Rightarrow> (Some er, s\<lparr>syncs := Suc (syncs s)\<rparr>)
      | None \<Rightarrow> (None, s\<lparr>syncs := Suc (syncs s), persisted := Nodes s\<rparr>))"

text \<open>
  The part of the loop body that handles a record without error:
  \<^verbatim>\<open>
  mv, ok := ts.cfg.EKSConfig.StatusManagedNodeGroups.Nodes[data.mngName]
  if !ok { return fmt.Errorf("EKS Managed Node Group name %q is unknown", data.mngName) }
  if mv.Logs == nil { mv.Logs = make(map[string][]string) }
  _, ok = mv.Logs[data.instanceID]
  if ok { return fmt.Errorf("... for instance %q logs are redundant", ...) }
  mv.Logs[data.instanceID] = data.paths
  ts.cfg.EKSConfig.StatusManagedNodeGroups.Nodes[data.mngName] = mv
  ts.cfg.EKSConfig.Sync()
  files := len(data.paths)
  total += files
  \<close>
  The result of this \<open>Sync\<close> is dropped.
\<close>

definition merge :: "cfg \<Rightarrow> instanceLogs \<Rightarrow> tstate \<Rightarrow> error + tstate" where
  "merge c d s =
     (case map_of (Nodes s) (mngName d) of
        None \<Rightarrow> Inl (UnknownGroup (mngName d))
      | Some mv \<Rightarrow>
          let logs = (case Logs mv of None \<Rightarrow> [] | Some l \<Rightarrow> l) in
          (case map_of logs (instanceID d) of
             Some old \<Rightarrow> Inl (Redundant (mngName d) (instanceID d))
           | None \<Rightarrow>
               let mv' = mv\<lparr>Logs := Some (AList.update (instanceID d) (paths d) logs)\<rparr>;
                   s1 = s\<lparr>Nodes := AList.update (mngName d) mv' (Nodes s)\<rparr>;
                   s2 = snd (Sync c s1)
               in Inr (s2\<lparr>total := total s2 + length (paths d)\<rparr>)))"

text \<open>
  How the operation ended: at a set-up error, at an invariant violation in the drain
  loop, at the stop signal, or after the loop. \<open>Blocked\<close>: the loop waits for a record
  or the stop signal and neither comes.
\<close>

datatype exitPoint = AtSetup | AtViolation | AtStop | AtEnd

datatype outcome =
    Returned exitPoint "error option" tstate
  | Blocked tstate

text \<open>
  \<^verbatim>\<open>
  for i := 0; i < waits; i++ {
      var data instanceLogs
      select {
      case data = <-rch:
      case <-ts.cfg.Stopc:
          return ts.cfg.EKSConfig.Sync()
      }
      if data.err != nil { continue }
      ...
  }
  return ts.cfg.EKSConfig.Sync()
  \<close>
  The first argument is the number of iterations left, \<open>waits - i\<close>.
\<close>

fun drain :: "cfg \<Rightarrow> nat \<Rightarrow> sel list \<Rightarrow> tstate \<Rightarrow> outcome" where
  "drain c 0 arr s = (case Sync c s of (r, s') \<Rightarrow> Returned AtEnd r s')"
| "drain c (Suc n) [] s = Blocked s"
| "drain c (Suc n) (Stop # arr) s = (case Sync c s of (r, s') \<Rightarrow> Returned AtStop r s')"
| "drain c (Suc n) (Recv d # arr) s =
     (let s1 = s\<lparr>received := Suc (received s)\<rparr> in
      if err d \<noteq> None then drain c n arr s1
      else case merge c d s1 of
             Inl er \<Rightarrow> Returned AtViolation (Some er) s1
           | Inr s2 \<Rightarrow> drain c n arr s2)"

text \<open>
  The launching loops: one collector per instance of each group, and
  \<^verbatim>\<open>waits += len(nodeGroup.Instances)\<close> per group.
\<close>

definition jobs :: "(string \<times> MNG) list \<Rightarrow> (string \<times> string \<times> Instance) list" where
  "jobs nodes =
     concat (map (\<lambda>(name, nodeGroup).
                    map (\<lambda>(instID, iv). (name, instID, iv)) (Instances nodeGroup)) nodes)"

definition waitsOf :: "(string \<times> MNG) list \<Rightarrow> nat" where
  "waitsOf nodes = sum_list (map (\<lambda>(name, nodeGroup). length (Instances nodeGroup)) nodes)"

definition sentBy ::
  "cfg \<Rightarrow> string \<Rightarrow> (string \<times> string) list \<Rightarrow> (string \<times> string \<times> Instance) \<Rightarrow> instanceLogs list" where
  "sentBy c logsDir commandToFileName job =
     (case job of (name, instID, iv) \<Rightarrow>
        sentOf (collector (workerEnv c name instID) name instID logsDir (pfxOf instID iv) iv
                  commandToFileName))"

text \<open>
  \<open>fetchLogs\<close>: the run directory, the collectors, the drain loop. The rate and the
  burst only configure the limiter, whose answers are in \<open>workerEnv\<close>.
\<close>

definition fetchLogs :: "cfg \<Rightarrow> (string \<times> string) list \<Rightarrow> tstate \<Rightarrow> outcome" where
  "fetchLogs c commandToFileName s =
     (let s0 = s\<lparr>events := events s @ [TempDir (LogDir c) (Name c @ ''-mng-logs'')]\<rparr> in
      case tempDir c (LogDir c) (Name c @ ''-mng-logs'') of
        Inl er \<Rightarrow> Returned AtSetup (Some er) s0
      | Inr logsDir \<Rightarrow>
          let js = jobs (Nodes s);
              waits = waitsOf (Nodes s);
              s1 = s0\<lparr>events := events s0 @ map (\<lambda>(name, instID, iv). Launch name instID) js,
                      received := 0, total := 0\<rparr>
          in drain c waits (sched c (concat (map (sentBy c logsDir commandToFileName) js))) s1)"

definition logCmds :: "(string \<times> string) list" where
  "logCmds =
     [(''sudo journalctl --no-pager --output=short-precise -k'', ''kernel.out.log''),
      (''sudo journalctl --no-pager --output=short-precise'', ''journal.out.log''),
      (''sudo systemctl list-units -t service --no-pager --no-legend --all'',
       ''list-units-systemctl.out.log'')]"

text \<open>\<open>defer ts.logsMu.Unlock()\<close>: the lock is released when \<open>FetchLogs\<close> returns.\<close>

fun unlocked :: "outcome \<Rightarrow> outcome" where
  "unlocked (Returned x r s) = Returned x r (s\<lparr>events := events s @ [Unlock]\<rparr>)"
| "unlocked (Blocked s) = Blocked s"

text \<open>
  \<^verbatim>\<open>
  func (ts *tester) FetchLogs() (err error) {
      if !ts.cfg.EKSConfig.AddOnManagedNodeGroups.Enable {
          return fmt.Errorf("AddOnManagedNodeGroups.Enable %v; no managed node group to fetch logs for", ...)
      }
      if err := os.MkdirAll(ts.cfg.EKSConfig.AddOnManagedNodeGroups.LogDir, 0700); err != nil {
          return err
      }
      ts.logsMu.Lock()
      defer ts.logsMu.Unlock()
      return ts.fetchLogs(150, 10, logCmds)
  }
  \<close>
  Octal 0700 is 448.
\<close>

definition FetchLogs :: "cfg \<Rightarrow> tstate \<Rightarrow> outcome" where
  "FetchLogs c s =
     (if \<not> Enable c then Returned AtSetup (Some (NotEnabled (Enable c))) s
      else
        case mkdirAll c (LogDir c) 448 of
          Some er \<Rightarrow> Returned AtSetup (Some er) (s\<lparr>events := events s @ [MkdirAll (LogDir c) 448]\<rparr>)
        | None \<Rightarrow>
            unlocked (fetchLogs c logCmds
                        (s\<lparr>events := events s @ [MkdirAll (LogDir c) 448, Lock]\<rparr>)))"

text \<open>The files recorded for an instance of a group in Fleet Status, if any.\<close>

definition logsOf :: "(string \<times> MNG) list \<Rightarrow> string \<Rightarrow> string \<Rightarrow> string list option" where
  "logsOf nodes g i =
     (case map_of nodes g of
        None \<Rightarrow> None
      | Some mv \<Rightarrow> (case Logs mv of None \<Rightarrow> None | Some l \<Rightarrow> map_of l i))"

text \<open>A service listing: one running unit, one inactive, one not found, one short line.\<close>

definition unitsOut :: string where
  "unitsOut = ''sshd.service loaded active running SSH'' @ [CHR 0x0A]
     @ ''rpc.service loaded inactive dead RPC'' @ [CHR 0x0A]
     @ ''x.service not-found active dead x'' @ [CHR 0x0A]
     @ ''short.service loaded active running'' @ [CHR 0x0A]"

text \<open>
  Collaborators for the examples: a limiter that always allows, a session that opens,
  a file system that accepts every file, and a remote host on which the command \<open>c2\<close>
  fails, the service listing shows one unit and \<open>/var/log\<close> holds one file.
\<close>

definition hostRun :: "nat \<Rightarrow> string \<Rightarrow> error + string" where
  "hostRun t cmd =
     (if cmd = ''c2'' then Inl (Err ''boom'')
      else if cmd = listCmd then Inr (''a b c d e'' @ [CHR 0x0A])
      else if cmd = findCmd then Inr (''/var/log/m'' @ [CHR 0x0A])
      else Inr ''out'')"

definition okEnv :: env where
  "okEnv =
     \<lparr>stopped = False, allow = (\<lambda>t. True), sshNew = (\<lambda>iv. None), connect = None,
      run = hostRun, osCreate = (\<lambda>t p. None), fWrite = (\<lambda>t p d. None),
      draws = (\<lambda>t. zeroDraws), rangeOrder = (\<lambda>m. m), Join = (\<lambda>d n. d @ ''/'' @ n)\<rparr>"



definition inst1 :: Instance where
  "inst1 = \<lparr>PublicIP = ''1.2.3.4'', PublicDNSName = ''ec2-1-2.Compute.amazonaws.com''\<rparr>"

text \<open>A lower-case ASCII letter or a digit.\<close>

definition isLowerAlnum :: "char \<Rightarrow> bool" where
  "isLowerAlnum c =
     (let n = (of_char c :: nat) in (97 \<le> n \<and> n \<le> 122) \<or> (48 \<le> n \<and> n \<le> 57))"

text \<open>The state and, for an operation that returned, the exit of an outcome.\<close>

fun stateOf :: "outcome \<Rightarrow> tstate" where
  "stateOf (Returned x r s) = s"
| "stateOf (Blocked s) = s"

fun exitOf :: "outcome \<Rightarrow> exitPoint option" where
  "exitOf (Returned x r s) = Some x"
| "exitOf (Blocked s) = None"

text \<open>
  A fleet for the examples: group \<open>g1\<close> with two instances and group \<open>g2\<close> with one;
  a configuration in which every collaborator succeeds, every command prints nothing
  and the records arrive in the order of the launches (\<open>recOf g i\<close> is then the record
  of instance \<open>i\<close> of group \<open>g\<close>); variants in which the stop signal comes after the first
  record, and in which the add-on is disabled; a state before any collection and a
  state in which \<open>i-1\<close> of \<open>g1\<close> was collected already.
\<close>

definition nodes1 :: "(string \<times> MNG) list" where
  "nodes1 =
     [(''g1'', \<lparr>Instances = [(''i-1'', inst1), (''i-2'', inst1)], Logs = None\<rparr>),
      (''g2'', \<lparr>Instances = [(''i-3'', inst1)], Logs = None\<rparr>)]"

definition nodes2 :: "(string \<times> MNG) list" where
  "nodes2 =
     [(''g1'', \<lparr>Instances = [(''i-1'', inst1), (''i-2'', inst1)],
               Logs = Some [(''i-1'', [''/old/f1''])]\<rparr>),
      (''g2'', \<lparr>Instances = [(''i-3'', inst1)], Logs = None\<rparr>)]"

definition st1 :: tstate where
  "st1 = \<lparr>Nodes = nodes1, persisted = [], syncs = 0, received = 0, total = 0, events = []\<rparr>"

definition st2 :: tstate where
  "st2 = \<lparr>Nodes = nodes2, persisted = nodes2, syncs = 0, received = 0, total = 0, events = []\<rparr>"

definition noSyncErr :: "nat \<Rightarrow> error option" where
  "noSyncErr n = None"

definition stopAfterOne :: "instanceLogs list \<Rightarrow> sel list" where
  "stopAfterOne ds = map Recv (take 1 ds) @ [Stop]"

definition quietEnv :: env where
  "quietEnv = okEnv\<lparr>run := (\<lambda>t cmd. Inr [])\<rparr>"

definition recOf :: "string \<Rightarrow> string \<Rightarrow> instanceLogs" where
  "recOf g i =
     \<lparr>mngName = g, instanceID = i, paths = [''/logs/eks-mng-logs/'' @ i @ ''-12compu-v1-enis''],
      err = None\<rparr>"

definition cfg1 :: cfg where
  "cfg1 =
     \<lparr>Enable = True, LogDir = ''/logs'', Name = ''eks'', mkdirAll = (\<lambda>d m. None),
      tempDir = (\<lambda>d p. Inr (d @ ''/'' @ p)), workerEnv = (\<lambda>g i. quietEnv), sched = map Recv,
      syncErr = noSyncErr\<rparr>"

definition cfgStop :: cfg where
  "cfgStop = cfg1\<lparr>sched := stopAfterOne\<rparr>"

definition cfgOff :: cfg where
  "cfgOff = cfg1\<lparr>Enable := False\<rparr>"

definition recOK :: instanceLogs where
  "recOK = \<lparr>mngName = ''g1'', instanceID = ''i-1'', paths = [''/d/f1''], err = None\<rparr>"

definition recFailed :: instanceLogs where
  "recFailed = \<lparr>mngName = ''g1'', instanceID = ''i-2'', paths = [], err = Some (Err ''boom'')\<rparr>"

definition recStray :: instanceLogs where
  "recStray = \<lparr>mngName = ''g9'', instanceID = ''i-1'', paths = [''/d/f1''], err = None\<rparr>"

section \<open>Properties of the filename-safety transform\<close>

lemma length_ll: "length ll = 36"
  by (simp add: ll_def)

lemma set_ll:
  "set ll = set ''0123456789'' \<union> set ''abcdefghijklmnopqrstuvwxyz''"
  by (simp add: ll_def insert_commute)

lemma length_randString: "length (randString rnd n) = n"
  by (simp add: randString_def)

lemma set_randString: "set (randString rnd n) \<subseteq> set ll"
  by (auto simp: randString_def Intn_def length_ll)

lemma ExtScan_suffix: "suffix (ExtScan r suf) (rev r @ suf)"
proof (induction r arbitrary: suf)
  case Nil
  show ?case by simp
next
  case (Cons c r)
  have "suffix (c # suf) (rev r @ c # suf)"
    by (simp add: suffix_def)
  moreover have "suffix (ExtScan r (c # suf)) (rev r @ c # suf)"
    by (rule Cons.IH)
  ultimately show ?case by auto
qed

lemma Ext_suffix: "suffix (Ext name) name"
  using ExtScan_suffix [of "rev name" "[]"] by (simp add: Ext_def)

lemma ExtScan_found:
  "ExtScan r suf \<noteq> [] \<Longrightarrow>
     \<exists>a b. r = a @ CHR ''.'' # b \<and> CHR ''.'' \<notin> set a \<and> CHR ''/'' \<notin> set a
           \<and> ExtScan r suf = CHR ''.'' # rev a @ suf"
proof (induction r arbitrary: suf)
  case Nil
  then show ?case by simp
next
  case (Cons c r)
  show ?case
  proof (cases "c = CHR ''.''")
    case True
    then have "c # r = [] @ CHR ''.'' # r \<and> ExtScan (c # r) suf = CHR ''.'' # rev [] @ suf"
      by simp
    then show ?thesis by (intro exI [of _ "[]"] exI [of _ r]) simp
  next
    case False
    with Cons.prems have ns: "c \<noteq> CHR ''/''" and ne: "ExtScan r (c # suf) \<noteq> []"
      by (auto split: if_splits)
    from Cons.IH [OF ne] obtain a b where ab: "r = a @ CHR ''.'' # b" "CHR ''.'' \<notin> set a"
      "CHR ''/'' \<notin> set a" "ExtScan r (c # suf) = CHR ''.'' # rev a @ c # suf"
      by blast
    show ?thesis
      using ab False ns by (intro exI [of _ "c # a"] exI [of _ b]) simp
  qed
qed

lemma ExtScan_skip:
  "CHR ''.'' \<notin> set a \<Longrightarrow> CHR ''/'' \<notin> set a \<Longrightarrow>
     ExtScan (a @ CHR ''.'' # b) suf = CHR ''.'' # rev a @ suf"
  by (induction a arbitrary: suf) auto

lemma Ext_append:
  assumes "Ext name \<noteq> []"
  shows "Ext (xs @ Ext name) = Ext name"
proof -
  from assms have "ExtScan (rev name) [] \<noteq> []" by (simp add: Ext_def)
  from ExtScan_found [OF this] obtain a b where ab: "rev name = a @ CHR ''.'' # b"
    "CHR ''.'' \<notin> set a" "CHR ''/'' \<notin> set a" "Ext name = CHR ''.'' # rev a"
    by (auto simp: Ext_def)
  have "rev (xs @ Ext name) = a @ CHR ''.'' # rev xs" by (simp add: ab(4))
  then have "Ext (xs @ Ext name) = CHR ''.'' # rev a"
    using ExtScan_skip [OF ab(2,3), of "rev xs" "[]"] by (simp add: Ext_def)
  with ab(4) show ?thesis by simp
qed

lemma Ext_shorten: "Ext name \<noteq> [] \<Longrightarrow> Ext (shorten rnd name) = Ext name"
  using Ext_append [of name "take 230 name @ randString rnd 5"]
  by (simp add: shorten_def)

text \<open>
  C3 (as amended). A candidate name shorter than 240 bytes is returned unchanged. A name
  of 240 bytes or more becomes its first 230 bytes, then five random characters drawn
  from the digits and the lower-case letters, then the extension of the original name.
  In both cases the result ends with the original extension, and when the original
  name has an extension it is the extension of the result.
\<close>

theorem shorten_spec:
  "(length name < 240 \<longrightarrow> shorten rnd name = name) \<and>
   (240 \<le> length name \<longrightarrow>
      shorten rnd name = take 230 name @ randString rnd 5 @ Ext name \<and>
      length (take 230 name) = 230 \<and>
      length (randString rnd 5) = 5 \<and>
      set (randString rnd 5) \<subseteq> set ''0123456789'' \<union> set ''abcdefghijklmnopqrstuvwxyz'') \<and>
   suffix (Ext name) (shorten rnd name) \<and>
   (Ext name \<noteq> [] \<longrightarrow> Ext (shorten rnd name) = Ext name)"
proof (intro conjI impI)
  assume "Ext name \<noteq> []"
  then show "Ext (shorten rnd name) = Ext name" by (rule Ext_shorten)
next
  assume "length name < 240"
  then show "shorten rnd name = name" by (simp add: shorten_def)
next
  assume "240 \<le> length name"
  then show "shorten rnd name = take 230 name @ randString rnd 5 @ Ext name"
    by (simp add: shorten_def)
next
  assume "240 \<le> length name"
  then show "length (take 230 name) = 230" by simp
next
  show "length (randString rnd 5) = 5" by (rule length_randString)
next
  show "set (randString rnd 5) \<subseteq> set ''0123456789'' \<union> set ''abcdefghijklmnopqrstuvwxyz''"
    using set_randString [of rnd 5] set_ll by simp
next
  show "suffix (Ext name) (shorten rnd name)"
  proof (cases "length name < 240")
    case True
    then show ?thesis by (simp add: shorten_def Ext_suffix)
  next
    case False
    have "suffix (Ext name) ((take 230 name @ randString rnd 5) @ Ext name)"
      by (rule suffix_appendI) simp
    with False show ?thesis by (simp add: shorten_def)
  qed
qed

lemma length_name240: "length name240 = 240"
  by (simp add: name240_def)

lemma length_name239: "length name239 = 239"
  by (simp add: name239_def)

lemma Ext_name240: "Ext name240 = ''.log''"
  by (simp add: Ext_def name240_def)

lemma randString_zeroDraws: "randString zeroDraws 5 = ''00000''"
  by (simp add: randString_def zeroDraws_def Intn_def ll_def upt_rec)

theorem shorten_spec_witness:
  "length name239 < 240 \<and> shorten zeroDraws name239 = name239 \<and>
   240 \<le> length name240 \<and>
   shorten zeroDraws name240 = replicate 230 (CHR ''a'') @ ''00000'' @ ''.log'' \<and>
   Ext name240 \<noteq> [] \<and> Ext (shorten zeroDraws name240) = ''.log''"
proof -
  note a = shorten_spec [of name239 zeroDraws] and b = shorten_spec [of name240 zeroDraws]
  have 1: "shorten zeroDraws name239 = name239"
    using a by (simp add: length_name239)
  have "shorten zeroDraws name240 = take 230 name240 @ randString zeroDraws 5 @ Ext name240"
    using b by (simp add: length_name240)
  then have 2: "shorten zeroDraws name240 = replicate 230 (CHR ''a'') @ ''00000'' @ ''.log''"
    by (simp add: Ext_name240 randString_zeroDraws) (simp add: name240_def)
  have 3: "Ext (shorten zeroDraws name240) = ''.log''"
    using b by (simp add: Ext_name240)
  have 4: "Ext name240 \<noteq> []" by (simp add: Ext_name240)
  have 5: "length name239 < 240" "240 \<le> length name240"
    by (simp_all add: length_name239 length_name240)
  show ?thesis using 1 2 3 4 5 by blast
qed

text \<open>
  C3 as first worded keeps a name of exactly 240 bytes unchanged. The comparison in the
  code is strict: such a name is already rewritten, here to 239 bytes.
\<close>

theorem shorten_240_counterexample:
  "length name240 \<le> 240 \<and> shorten zeroDraws name240 \<noteq> name240"
proof -
  have "length (shorten zeroDraws name240) = 239"
    by (simp add: shorten_def length_name240 length_randString Ext_name240)
  then have "shorten zeroDraws name240 \<noteq> name240"
    using length_name240 by auto
  then show ?thesis by (simp add: length_name240)
qed

section \<open>The service-discovery filter\<close>

lemma FieldsScan_nonempty: "f \<in> set (FieldsScan cur s) \<Longrightarrow> f \<noteq> []"
proof (induction cur s rule: FieldsScan.induct)
  case (1 cur)
  then show ?case by (auto split: if_splits)
next
  case (2 cur c cs)
  obtain r w where rw: "DecodeRune (c # cs) = (r, w)" by (cases "DecodeRune (c # cs)")
  show ?case
  proof (cases "IsSpace r")
    case True
    with 2 rw show ?thesis by (auto split: if_splits)
  next
    case False
    with 2 rw show ?thesis by auto
  qed
qed

lemma Fields_nonempty: "f \<in> set (Fields line) \<Longrightarrow> f \<noteq> []"
  by (simp add: Fields_def FieldsScan_nonempty)

lemma svcLine_eq:
  "svcLine line =
     (if 5 \<le> length (Fields line) \<and> Fields line ! 1 \<noteq> ''not-found''
           \<and> Fields line ! 2 \<noteq> ''inactive''
      then Some (''sudo journalctl --no-pager --output=cat -u '' @ Fields line ! 0,
                 Fields line ! 0 @ ''.out.log'')
      else None)"
proof -
  have "Fields line ! 0 \<noteq> []" if "5 \<le> length (Fields line)"
  proof -
    from that have "0 < length (Fields line)" by arith
    then have "Fields line ! 0 \<in> set (Fields line)" by (rule nth_mem)
    then show ?thesis by (rule Fields_nonempty)
  qed
  then show ?thesis
    by (auto simp: svcLine_def Let_def)
qed

lemma svcLine_key_value:
  "svcLine l = Some (k, v) \<Longrightarrow> svcLine l' = Some (k, v') \<Longrightarrow> v = v'"
  by (auto simp: svcLine_eq split: if_splits)

text \<open>
  A map filled by a loop of assignments, when a key always comes with the same value:
  it holds a pair if a line gave it, or if it was there before and no line gave the key.
\<close>

lemma fold_update_map_of:
  assumes det: "\<And>l l' k v v'. f l = Some (k, v) \<Longrightarrow> f l' = Some (k, v') \<Longrightarrow> v = v'"
  shows "map_of (fold (\<lambda>line m. case f line of None \<Rightarrow> m
                                 | Some (k, v) \<Rightarrow> AList.update k v m) ls m0) k = Some v
     \<longleftrightarrow> (\<exists>l \<in> set ls. f l = Some (k, v)) \<or>
         (map_of m0 k = Some v \<and> \<not> (\<exists>l \<in> set ls. \<exists>v'. f l = Some (k, v')))"
proof (induction ls arbitrary: m0)
  case Nil
  show ?case by simp
next
  case (Cons l ls)
  let ?step = "\<lambda>line m. case f line of None \<Rightarrow> m | Some (k, v) \<Rightarrow> AList.update k v m"
  show ?case
  proof (cases "f l")
    case None
    then show ?thesis using Cons.IH [of m0] by auto
  next
    case (Some kv)
    obtain k' v' where kv: "f l = Some (k', v')" using Some by (cases kv) auto
    have step: "fold ?step (l # ls) m0 = fold ?step ls (AList.update k' v' m0)"
      by (simp add: kv)
    note IH = Cons.IH [of "AList.update k' v' m0"]
    show ?thesis
    proof (cases "k = k'")
      case True
      have same: "w = v'" if "l' \<in> set ls" "f l' = Some (k, w)" for l' w
        using det [OF that(2)] kv True by auto
      have "map_of (fold ?step ls (AList.update k' v' m0)) k = Some v
              \<longleftrightarrow> v' = v \<or> (\<exists>l \<in> set ls. f l = Some (k, v))"
        unfolding IH using True same by (auto simp: update_conv')
      then show ?thesis unfolding step using kv True by auto
    next
      case False
      then show ?thesis unfolding step IH using kv by (auto simp: update_conv')
    qed
  qed
qed

lemma svcCmdToFileName_map_of:
  "map_of (svcCmdToFileName out) cmd = Some fn \<longleftrightarrow>
     (\<exists>line \<in> set (SplitLines out). svcLine line = Some (cmd, fn))"
  unfolding svcCmdToFileName_def
  using fold_update_map_of [of svcLine "SplitLines out" "[]" cmd fn, OF svcLine_key_value]
  by simp

text \<open>
  C2. A line of the service listing contributes its first field, the unit name, exactly
  when it has at least five white-space separated fields, its second field is not
  \<open>not-found\<close> and its third field is not \<open>inactive\<close>. The contribution is the command
  \<open>sudo journalctl --no-pager --output=cat -u\<close> followed by the unit name, with the
  unit name plus \<open>.out.log\<close> as file name; the map built from the listing holds exactly
  the contributions of its lines.
\<close>

theorem svc_filter:
  "svcLine line =
     (if 5 \<le> length (Fields line) \<and> Fields line ! 1 \<noteq> ''not-found''
           \<and> Fields line ! 2 \<noteq> ''inactive''
      then Some (''sudo journalctl --no-pager --output=cat -u '' @ Fields line ! 0,
                 Fields line ! 0 @ ''.out.log'')
      else None) \<and>
   (map_of (svcCmdToFileName out) cmd = Some fn \<longleftrightarrow>
      (\<exists>l \<in> set (SplitLines out). svcLine l = Some (cmd, fn)))"
  using svcLine_eq [of line] svcCmdToFileName_map_of [of out cmd fn] by simp

lemma SplitLines_unitsOut:
  "SplitLines unitsOut =
     [''sshd.service loaded active running SSH'', ''rpc.service loaded inactive dead RPC'',
      ''x.service not-found active dead x'', ''short.service loaded active running'', []]"
  by (simp add: SplitLines_def unitsOut_def)

lemma Fields_sshd:
  "Fields ''sshd.service loaded active running SSH''
     = [''sshd.service'', ''loaded'', ''active'', ''running'', ''SSH'']"
  by (simp add: Fields_def DecodeRune_def IsSpace_def)

lemma Fields_rpc:
  "Fields ''rpc.service loaded inactive dead RPC''
     = [''rpc.service'', ''loaded'', ''inactive'', ''dead'', ''RPC'']"
  by (simp add: Fields_def DecodeRune_def IsSpace_def)

lemma Fields_notfound:
  "Fields ''x.service not-found active dead x''
     = [''x.service'', ''not-found'', ''active'', ''dead'', ''x'']"
  by (simp add: Fields_def DecodeRune_def IsSpace_def)

lemma Fields_short:
  "Fields ''short.service loaded active running''
     = [''short.service'', ''loaded'', ''active'', ''running'']"
  by (simp add: Fields_def DecodeRune_def IsSpace_def)

theorem svc_filter_witness:
  "svcLine ''sshd.service loaded active running SSH''
     = Some (''sudo journalctl --no-pager --output=cat -u sshd.service'',
             ''sshd.service.out.log'') \<and>
   svcLine ''rpc.service loaded inactive dead RPC'' = None \<and>
   svcLine ''x.service not-found active dead x'' = None \<and>
   svcLine ''short.service loaded active running'' = None \<and>
   map_of (svcCmdToFileName unitsOut)
      ''sudo journalctl --no-pager --output=cat -u sshd.service''
     = Some ''sshd.service.out.log'' \<and>
   map_of (svcCmdToFileName unitsOut)
      ''sudo journalctl --no-pager --output=cat -u rpc.service'' = None"
proof -
  note a = svc_filter [of "''sshd.service loaded active running SSH''" unitsOut
      "''sudo journalctl --no-pager --output=cat -u sshd.service''" "''sshd.service.out.log''",
      unfolded Fields_sshd SplitLines_unitsOut]
  note b = svc_filter [of "''rpc.service loaded inactive dead RPC''" unitsOut
      "''sudo journalctl --no-pager --output=cat -u rpc.service''" "''rpc.service.out.log''",
      unfolded Fields_rpc SplitLines_unitsOut]
  note c = svc_filter [of "''x.service not-found active dead x''" unitsOut "[]" "[]",
      unfolded Fields_notfound]
  note d = svc_filter [of "''short.service loaded active running''" unitsOut "[]" "[]",
      unfolded Fields_short]
  have 1: "svcLine ''sshd.service loaded active running SSH''
     = Some (''sudo journalctl --no-pager --output=cat -u sshd.service'',
             ''sshd.service.out.log'')"
    using a by simp
  have 2: "svcLine ''rpc.service loaded inactive dead RPC'' = None" using b by simp
  have 3: "svcLine ''x.service not-found active dead x'' = None" using c by simp
  have 4: "svcLine ''short.service loaded active running'' = None" using d by simp
  have 0: "svcLine [] = None" by (simp add: svcLine_def Fields_def)
  have 5: "map_of (svcCmdToFileName unitsOut)
      ''sudo journalctl --no-pager --output=cat -u sshd.service''
     = Some ''sshd.service.out.log''"
    using a 1 by simp
  have "map_of (svcCmdToFileName unitsOut)
      ''sudo journalctl --no-pager --output=cat -u rpc.service'' \<noteq> Some v" for v
    using svc_filter [of "[]" unitsOut
        "''sudo journalctl --no-pager --output=cat -u rpc.service''" v,
        unfolded SplitLines_unitsOut] 0 1 2 3 4
    by simp
  then have 6: "map_of (svcCmdToFileName unitsOut)
      ''sudo journalctl --no-pager --output=cat -u rpc.service'' = None"
    by (cases "map_of (svcCmdToFileName unitsOut)
      ''sudo journalctl --no-pager --output=cat -u rpc.service''") auto
  from 1 2 3 4 5 6 show ?thesis by simp
qed


section \<open>The collector, step by step\<close>







lemma sentOf_append: "sentOf (a @ b) = sentOf a @ sentOf b"
  by (induction a rule: sentOf.induct) auto

lemma fetchFile_preserves:
  assumes run: "\<And>s cmd. Q s \<Longrightarrow> Q (snd (gatedRun e instID cmd s))"
      and save: "\<And>s fileName out. Q s \<Longrightarrow> Q (snd (saveFile e logsDir pfx instID fileName out s))"
      and "Q s"
  shows "Q (snd (fetchFile e logsDir pfx instID cmd fileName s))"
proof (cases "gatedRun e instID cmd s")
  case (Pair r s1)
  with run [OF \<open>Q s\<close>, of cmd] have "Q s1" by simp
  then show ?thesis
    using Pair save [of s1] by (cases r) (simp_all add: fetchFile_def)
qed

lemma fetchAll_preserves:
  assumes run: "\<And>s cmd. Q s \<Longrightarrow> Q (snd (gatedRun e instID cmd s))"
      and save: "\<And>s fileName out. Q s \<Longrightarrow> Q (snd (saveFile e logsDir pfx instID fileName out s))"
      and "Q s"
  shows "Q (snd (fetchAll e logsDir pfx instID cmds s))"
  using \<open>Q s\<close>
proof (induction cmds arbitrary: s)
  case Nil
  then show ?case by simp
next
  case (Cons cf cmds)
  obtain cmd fileName where cf: "cf = (cmd, fileName)" by (cases cf)
  have Q1: "Q (snd (fetchFile e logsDir pfx instID cmd fileName s))"
    using run save Cons.prems by (rule fetchFile_preserves)
  show ?case
  proof (cases "fetchFile e logsDir pfx instID cmd fileName s")
    case (Pair r s1)
    with Q1 have "Q s1" by simp
    then show ?thesis using Pair cf Cons.IH [of s1] by (cases r) simp_all
  qed
qed

lemma stages_preserves:
  assumes run: "\<And>s cmd. Q s \<Longrightarrow> Q (snd (gatedRun e instID cmd s))"
      and save: "\<And>s fileName out. Q s \<Longrightarrow> Q (snd (saveFile e logsDir pfx instID fileName out s))"
      and "Q s0"
  shows "Q (snd (stages e logsDir pfx instID cmds s0))"
proof -
  have all: "Q (snd (fetchAll e logsDir pfx instID cs s))" if "Q s" for s cs
    using run save that by (rule fetchAll_preserves)
  have one: "Q (snd (fetchFile e logsDir pfx instID cmd fileName s))" if "Q s" for s cmd fileName
    using run save that by (rule fetchFile_preserves)
  obtain r1 s1 where 1: "fetchAll e logsDir pfx instID (rangeOrder e cmds) s0 = (r1, s1)"
    by (cases "fetchAll e logsDir pfx instID (rangeOrder e cmds) s0")
  have Q1: "Q s1" using all [OF \<open>Q s0\<close>, of "rangeOrder e cmds"] 1 by simp
  obtain r2 s2 where 2: "gatedRun e instID listCmd s1 = (r2, s2)"
    by (cases "gatedRun e instID listCmd s1")
  have Q2: "Q s2" using run [OF Q1, of listCmd] 2 by simp
  show ?thesis
  proof (cases r1)
    case (Some er)
    then show ?thesis using 1 Q1 by (simp add: stages_def)
  next
    case None
    note r1 = None
    show ?thesis
    proof (cases r2)
      case (Inl er)
      then show ?thesis using 1 r1 2 Q2 by (simp add: stages_def)
    next
      case (Inr out)
      obtain r3 s3 where 3:
        "fetchAll e logsDir pfx instID (rangeOrder e (svcCmdToFileName out)) s2 = (r3, s3)"
        by (cases "fetchAll e logsDir pfx instID (rangeOrder e (svcCmdToFileName out)) s2")
      have Q3: "Q s3" using all [OF Q2, of "rangeOrder e (svcCmdToFileName out)"] 3 by simp
      obtain r4 s4 where 4: "fetchFile e logsDir pfx instID eniCmd ''v1-enis'' s3 = (r4, s4)"
        by (cases "fetchFile e logsDir pfx instID eniCmd ''v1-enis'' s3")
      have Q4: "Q s4" using one [OF Q3, of eniCmd "''v1-enis''"] 4 by simp
      obtain r5 s5 where 5: "gatedRun e instID findCmd s4 = (r5, s5)"
        by (cases "gatedRun e instID findCmd s4")
      have Q5: "Q s5" using run [OF Q4, of findCmd] 5 by simp
      show ?thesis
      proof (cases r3)
        case (Some er)
        then show ?thesis using 1 r1 2 Inr 3 Q3 by (simp add: stages_def)
      next
        case None
        note r3 = None
        show ?thesis
        proof (cases r4)
          case (Some er)
          then show ?thesis using 1 r1 2 Inr 3 r3 4 Q4 by (simp add: stages_def)
        next
          case None
          note r4 = None
          show ?thesis
          proof (cases r5)
            case (Inl er)
            then show ?thesis using 1 r1 2 Inr 3 r3 4 r4 5 Q5 by (simp add: stages_def)
          next
            case (Inr out')
            have "Q (snd (fetchAll e logsDir pfx instID (rangeOrder e (varLogCmdToFileName out')) s5))"
              using all [OF Q5] .
            then show ?thesis using 1 r1 2 \<open>r2 = Inr out\<close> 3 r3 4 r4 5 Inr
              by (simp add: stages_def)
          qed
        qed
      qed
    qed
  qed
qed

lemma gatedRun_snd:
  "snd (gatedRun e instID cmd s) = s\<lparr>trace := gate e (trace s) @ [Run cmd]\<rparr>"
  by (simp add: gatedRun_def Let_def)

lemma saveFile_cases:
  "\<exists>fpath. fpath = Join e logsDir (shorten (draws e (length (trace s))) (pfx @ fileName)) \<and>
     (snd (saveFile e logsDir pfx instID fileName out s) = s\<lparr>trace := trace s @ [Create fpath]\<rparr>
      \<or> snd (saveFile e logsDir pfx instID fileName out s)
           = s\<lparr>trace := trace s @ [Create fpath, Write fpath out]\<rparr>
      \<or> snd (saveFile e logsDir pfx instID fileName out s)
           = s\<lparr>trace := trace s @ [Create fpath, Write fpath out],
               data := (data s)\<lparr>paths := paths (data s) @ [fpath]\<rparr>\<rparr>)"
  by (simp add: saveFile_def Let_def split: option.splits)

section \<open>The rate-limiter gate\<close>



text \<open>The predicate rejects a command without a gate right before it.\<close>

lemma gated_rejects:
  "\<not> gated [Run c]" "\<not> gated [Allow False, Run c]" "\<not> gated [Allow True, Create p, Run c]"
  "\<not> gated [Allow True, Run c, Run c]" "gated [Allow False, Wait, Run c, Allow True, Run c]"
  by (simp_all add: gated_def)


section \<open>The records of a collector\<close>

lemma gate_sentOf: "sentOf (gate e tr) = sentOf tr"
  by (simp add: gate_def sentOf_append)

lemma stages_data:
  assumes "sentOf (trace s0) = [] \<and> err (data s0) = None \<and> mngName (data s0) = g
             \<and> instanceID (data s0) = i"
  shows "sentOf (trace (snd (stages e logsDir pfx instID cmds s0))) = []
         \<and> err (data (snd (stages e logsDir pfx instID cmds s0))) = None
         \<and> mngName (data (snd (stages e logsDir pfx instID cmds s0))) = g
         \<and> instanceID (data (snd (stages e logsDir pfx instID cmds s0))) = i"
proof (rule stages_preserves
    [where Q = "\<lambda>s. sentOf (trace s) = [] \<and> err (data s) = None \<and> mngName (data s) = g
                      \<and> instanceID (data s) = i"])
  fix s :: wstate and cmd
  assume "sentOf (trace s) = [] \<and> err (data s) = None \<and> mngName (data s) = g
            \<and> instanceID (data s) = i"
  then show "sentOf (trace (snd (gatedRun e instID cmd s))) = []
         \<and> err (data (snd (gatedRun e instID cmd s))) = None
         \<and> mngName (data (snd (gatedRun e instID cmd s))) = g
         \<and> instanceID (data (snd (gatedRun e instID cmd s))) = i"
    by (simp add: gatedRun_snd sentOf_append gate_sentOf)
next
  fix s :: wstate and fileName out
  assume a: "sentOf (trace s) = [] \<and> err (data s) = None \<and> mngName (data s) = g
            \<and> instanceID (data s) = i"
  from saveFile_cases [of e logsDir s pfx fileName instID out]
  show "sentOf (trace (snd (saveFile e logsDir pfx instID fileName out s))) = []
         \<and> err (data (snd (saveFile e logsDir pfx instID fileName out s))) = None
         \<and> mngName (data (snd (saveFile e logsDir pfx instID fileName out s))) = g
         \<and> instanceID (data (snd (saveFile e logsDir pfx instID fileName out s))) = i"
    using a by (auto simp: sentOf_append)
next
  show "sentOf (trace s0) = [] \<and> err (data s0) = None \<and> mngName (data s0) = g
             \<and> instanceID (data s0) = i" by fact
qed

text \<open>What a collector sends, by cases.\<close>

lemma collector_sent:
  "sentOf (collector e name instID logsDir pfx iv cmds) =
     (if stopped e then []
      else case sshNew e iv of
        Some er \<Rightarrow> [\<lparr>mngName = name, instanceID = [], paths = [], err = Some er\<rparr>]
      | None \<Rightarrow> (case connect e of
          Some er \<Rightarrow> [\<lparr>mngName = name, instanceID = [], paths = [], err = Some er\<rparr>]
        | None \<Rightarrow>
           (case stages e logsDir pfx instID cmds
                   \<lparr>trace = gate e [],
                    data = \<lparr>mngName = name, instanceID = instID, paths = [], err = None\<rparr>\<rparr> of
              (Some er, s) \<Rightarrow> [\<lparr>mngName = name, instanceID = instID, paths = [], err = Some er\<rparr>]
            | (None, s) \<Rightarrow> [data s])))"
proof -
  let ?s0 = "\<lparr>trace = gate e [],
              data = \<lparr>mngName = name, instanceID = instID, paths = [], err = None\<rparr>\<rparr>"
  have "sentOf (trace (snd (stages e logsDir pfx instID cmds ?s0))) = []"
    using stages_data [of ?s0 name instID e logsDir pfx instID cmds]
    by (simp add: gate_sentOf)
  moreover obtain r s where st: "stages e logsDir pfx instID cmds ?s0 = (r, s)"
    by (cases "stages e logsDir pfx instID cmds ?s0")
  ultimately show ?thesis
    by (cases r) (auto simp: collector_def Let_def sentOf_append gate_sentOf
             split: option.splits)
qed

lemma stages_from_start:
  assumes "stages e logsDir pfx instID cmds
             \<lparr>trace = gate e [],
              data = \<lparr>mngName = name, instanceID = instID, paths = [], err = None\<rparr>\<rparr> = (r, s)"
  shows "sentOf (trace s) = [] \<and> err (data s) = None \<and> mngName (data s) = name
           \<and> instanceID (data s) = instID"
  using stages_data [of "\<lparr>trace = gate e [],
              data = \<lparr>mngName = name, instanceID = instID, paths = [], err = None\<rparr>\<rparr>"
            name instID e logsDir pfx instID cmds] assms
  by (simp add: gate_sentOf)

text \<open>
  C7. Every record a collector sends with an error has an empty list of paths, also
  when earlier commands of that instance had produced files: the error of the session
  and the error of any later step are sent in a fresh record without paths.
\<close>

theorem error_record_no_paths:
  "\<forall>d \<in> set (sentOf (collector e name instID logsDir pfx iv cmds)).
      err d \<noteq> None \<longrightarrow> paths d = []"
proof -
  obtain r s where st: "stages e logsDir pfx instID cmds
             \<lparr>trace = gate e [],
              data = \<lparr>mngName = name, instanceID = instID, paths = [], err = None\<rparr>\<rparr> = (r, s)"
    by (cases "stages e logsDir pfx instID cmds
             \<lparr>trace = gate e [],
              data = \<lparr>mngName = name, instanceID = instID, paths = [], err = None\<rparr>\<rparr>")
  from stages_from_start [OF st] have "err (data s) = None" by simp
  then show ?thesis
    by (cases r) (auto simp: collector_sent st split: option.splits)
qed

lemma collector_okEnv_fail:
  "collector okEnv ''g'' ''i-1'' ''/d'' ''p-'' inst1 [(''c1'', ''f1''), (''c2'', ''f2'')] =
     [Allow True, Allow True, Run ''c1'', Create ''/d/p-f1'', Write ''/d/p-f1'' ''out'',
      Allow True, Run ''c2'',
      Send \<lparr>mngName = ''g'', instanceID = ''i-1'', paths = [],
            err = Some (RunFailed ''c2'' ''i-1'' (Err ''boom''))\<rparr>]"
  by (simp add: collector_def stages_def fetchFile_def gatedRun_def saveFile_def gate_def
        shorten_def okEnv_def hostRun_def Let_def listCmd_def findCmd_def eniCmd_def)

theorem error_record_no_paths_witness:
  "sentOf (collector okEnv ''g'' ''i-1'' ''/d'' ''p-'' inst1 [(''c1'', ''f1''), (''c2'', ''f2'')])
     = [\<lparr>mngName = ''g'', instanceID = ''i-1'', paths = [],
          err = Some (RunFailed ''c2'' ''i-1'' (Err ''boom''))\<rparr>] \<and>
   Create ''/d/p-f1''
     \<in> set (collector okEnv ''g'' ''i-1'' ''/d'' ''p-'' inst1 [(''c1'', ''f1''), (''c2'', ''f2'')])"
  using error_record_no_paths [of okEnv "''g''" "''i-1''" "''/d''" "''p-''" inst1
          "[(''c1'', ''f1''), (''c2'', ''f2'')]"]
  by (simp add: collector_okEnv_fail)






section \<open>The naming prefix and the file names\<close>

lemma isAlnum_lowerByte: "isAlnum (lowerByte c) = isAlnum c"
  by (auto simp: isAlnum_def lowerByte_def Let_def)

lemma ToLower_regexStrip: "ToLower (regexStrip s) = filter isAlnum (map lowerByte s)"
  by (simp add: ToLower_def regexStrip_def filter_map comp_def isAlnum_lowerByte)

lemma dnsPart_specSanitize: "dnsPart s = specSanitize s"
  by (simp add: dnsPart_def specSanitize_def Let_def ToLower_regexStrip)

lemma set_ReplaceAll_empty: "set (ReplaceAll s old []) \<subseteq> set s"
proof (induction s old "[] :: string" rule: ReplaceAll.induct)
  case (1 old)
  show ?case by simp
next
  case (2 c cs old)
  show ?case
  proof (cases "prefix old (c # cs)")
    case True
    have "set (drop (length old - 1) cs) \<subseteq> set cs" by (rule set_drop_subset)
    with 2(1) [OF True] True show ?thesis by auto
  next
    case False
    with 2(2) [OF False] show ?thesis by auto
  qed
qed

lemma lower_alnum: "isAlnum (lowerByte c) \<Longrightarrow> isLowerAlnum (lowerByte c)"
  by (auto simp: isAlnum_def lowerByte_def isLowerAlnum_def Let_def split: if_splits)

lemma specSanitize_chars: "c \<in> set (specSanitize s) \<Longrightarrow> isLowerAlnum c"
proof -
  assume "c \<in> set (specSanitize s)"
  then have "c \<in> set (ReplaceAll
          (ReplaceAll
             (ReplaceAll (filter isAlnum (map lowerByte s)) ''ec2'' [])
             ''compute.amazonaws'' [])
          ''amazonaws'' [])"
    unfolding specSanitize_def by (rule in_set_takeD)
  then have "c \<in> set (filter isAlnum (map lowerByte s))"
    using set_ReplaceAll_empty by blast
  then show ?thesis by (auto simp: lower_alnum)
qed

lemma stages_named:
  assumes "\<forall>p. (Create p \<in> set (trace s0) \<or> p \<in> set (paths (data s0))) \<longrightarrow>
              (\<exists>fileName t. p = Join e logsDir (shorten (draws e t) (pfx @ fileName)))"
  shows "\<forall>p. (Create p \<in> set (trace (snd (stages e logsDir pfx instID cmds s0)))
                \<or> p \<in> set (paths (data (snd (stages e logsDir pfx instID cmds s0))))) \<longrightarrow>
              (\<exists>fileName t. p = Join e logsDir (shorten (draws e t) (pfx @ fileName)))"
proof (rule stages_preserves
    [where Q = "\<lambda>s. \<forall>p. (Create p \<in> set (trace s) \<or> p \<in> set (paths (data s))) \<longrightarrow>
              (\<exists>fileName t. p = Join e logsDir (shorten (draws e t) (pfx @ fileName)))"])
  fix s :: wstate and cmd
  assume "\<forall>p. (Create p \<in> set (trace s) \<or> p \<in> set (paths (data s))) \<longrightarrow>
              (\<exists>fileName t. p = Join e logsDir (shorten (draws e t) (pfx @ fileName)))"
  then show "\<forall>p. (Create p \<in> set (trace (snd (gatedRun e instID cmd s)))
                \<or> p \<in> set (paths (data (snd (gatedRun e instID cmd s))))) \<longrightarrow>
              (\<exists>fileName t. p = Join e logsDir (shorten (draws e t) (pfx @ fileName)))"
    by (auto simp: gatedRun_snd gate_def)
next
  fix s :: wstate and fileName out
  assume a: "\<forall>p. (Create p \<in> set (trace s) \<or> p \<in> set (paths (data s))) \<longrightarrow>
              (\<exists>fileName t. p = Join e logsDir (shorten (draws e t) (pfx @ fileName)))"
  from saveFile_cases [of e logsDir s pfx fileName instID out]
  show "\<forall>p. (Create p \<in> set (trace (snd (saveFile e logsDir pfx instID fileName out s)))
                \<or> p \<in> set (paths (data (snd (saveFile e logsDir pfx instID fileName out s))))) \<longrightarrow>
              (\<exists>fileName t. p = Join e logsDir (shorten (draws e t) (pfx @ fileName)))"
    using a by (elim exE conjE disjE) auto
next
  show "\<forall>p. (Create p \<in> set (trace s0) \<or> p \<in> set (paths (data s0))) \<longrightarrow>
              (\<exists>fileName t. p = Join e logsDir (shorten (draws e t) (pfx @ fileName)))" by fact
qed

lemma gate_Create: "Create p \<in> set (gate e tr) \<longleftrightarrow> Create p \<in> set tr"
  by (simp add: gate_def)

lemma collector_named:
  "\<forall>p. (Create p \<in> set (collector e name instID logsDir pfx iv cmds)
          \<or> (\<exists>d \<in> set (sentOf (collector e name instID logsDir pfx iv cmds)). p \<in> set (paths d)))
        \<longrightarrow> (\<exists>fileName t. p = Join e logsDir (shorten (draws e t) (pfx @ fileName)))"
proof -
  let ?s0 = "\<lparr>trace = gate e [],
              data = \<lparr>mngName = name, instanceID = instID, paths = [], err = None\<rparr>\<rparr>"
  obtain r s where st: "stages e logsDir pfx instID cmds ?s0 = (r, s)"
    by (cases "stages e logsDir pfx instID cmds ?s0")
  have "\<forall>p. (Create p \<in> set (trace ?s0) \<or> p \<in> set (paths (data ?s0))) \<longrightarrow>
              (\<exists>fileName t. p = Join e logsDir (shorten (draws e t) (pfx @ fileName)))"
    by (simp add: gate_Create)
  from stages_named [OF this, of instID cmds] st
  have named: "\<forall>p. (Create p \<in> set (trace s) \<or> p \<in> set (paths (data s))) \<longrightarrow>
              (\<exists>fileName t. p = Join e logsDir (shorten (draws e t) (pfx @ fileName)))"
    by simp
  have tr: "Create p \<in> set (collector e name instID logsDir pfx iv cmds)
             \<Longrightarrow> Create p \<in> set (trace s)" for p
    by (cases r) (auto simp: collector_def Let_def st gate_Create split: option.splits if_splits)
  have pa: "d \<in> set (sentOf (collector e name instID logsDir pfx iv cmds)) \<Longrightarrow> p \<in> set (paths d)
             \<Longrightarrow> p \<in> set (paths (data s))" for p d
    by (cases r) (auto simp: collector_sent st split: option.splits if_splits)
  show ?thesis using named tr pa by blast
qed

text \<open>
  C8. The file-name prefix of an instance is its instance ID, a dash, the sanitized
  public DNS name and a dash. The sanitized name is the DNS name in lower case with
  everything but letters and digits removed, then \<open>ec2\<close>, \<open>compute.amazonaws\<close> and
  \<open>amazonaws\<close> removed, clipped to seven characters; it consists of lower-case letters
  and digits. Every file the collector creates, and every path in the record it sends,
  is the run directory joined with the safe form of the prefix followed by a file name.
\<close>

theorem prefix_spec:
  "pfxOf instID iv = instID @ ''-'' @ specSanitize (PublicDNSName iv) @ ''-'' \<and>
   length (specSanitize (PublicDNSName iv)) \<le> 7 \<and>
   (\<forall>c \<in> set (specSanitize (PublicDNSName iv)). isLowerAlnum c) \<and>
   (\<forall>p. (Create p \<in> set (collector e name instID logsDir (pfxOf instID iv) iv cmds)
          \<or> (\<exists>d \<in> set (sentOf (collector e name instID logsDir (pfxOf instID iv) iv cmds)).
                p \<in> set (paths d)))
        \<longrightarrow> (\<exists>fileName t.
               p = Join e logsDir (shorten (draws e t) (pfxOf instID iv @ fileName))))"
proof (intro conjI)
  show "pfxOf instID iv = instID @ ''-'' @ specSanitize (PublicDNSName iv) @ ''-''"
    by (simp add: pfxOf_def dnsPart_specSanitize)
  show "length (specSanitize (PublicDNSName iv)) \<le> 7"
    by (simp add: specSanitize_def)
  show "\<forall>c \<in> set (specSanitize (PublicDNSName iv)). isLowerAlnum c"
    using specSanitize_chars by blast
  show "\<forall>p. (Create p \<in> set (collector e name instID logsDir (pfxOf instID iv) iv cmds)
          \<or> (\<exists>d \<in> set (sentOf (collector e name instID logsDir (pfxOf instID iv) iv cmds)).
                p \<in> set (paths d)))
        \<longrightarrow> (\<exists>fileName t.
               p = Join e logsDir (shorten (draws e t) (pfxOf instID iv @ fileName)))"
    by (rule collector_named)
qed

lemma pfxOf_inst1: "pfxOf ''i-1'' inst1 = ''i-1-12compu-''"
  by code_simp

lemma specSanitize_inst1: "specSanitize (PublicDNSName inst1) = ''12compu''"
  by code_simp

lemma collector_inst1:
  "collector okEnv ''g'' ''i-1'' ''/d'' ''i-1-12compu-'' inst1 [(''c1'', ''f1'')] =
     [Allow True, Allow True, Run ''c1'', Create ''/d/i-1-12compu-f1'',
      Write ''/d/i-1-12compu-f1'' ''out'',
      Allow True, Run listCmd,
      Allow True, Run ''sudo journalctl --no-pager --output=cat -u a'',
      Create ''/d/i-1-12compu-a.out.log'', Write ''/d/i-1-12compu-a.out.log'' ''out'',
      Allow True, Run eniCmd, Create ''/d/i-1-12compu-v1-enis'',
      Write ''/d/i-1-12compu-v1-enis'' ''out'',
      Allow True, Run findCmd,
      Allow True, Run ''sudo cat /var/log/m'', Create ''/d/i-1-12compu-m'',
      Write ''/d/i-1-12compu-m'' ''out'',
      Send \<lparr>mngName = ''g'', instanceID = ''i-1'',
            paths = [''/d/i-1-12compu-f1'', ''/d/i-1-12compu-a.out.log'',
                     ''/d/i-1-12compu-v1-enis'', ''/d/i-1-12compu-m''],
            err = None\<rparr>]"
  by code_simp

theorem prefix_spec_witness:
  "pfxOf ''i-1'' inst1 = ''i-1-12compu-'' \<and>
   Create ''/d/i-1-12compu-v1-enis''
     \<in> set (collector okEnv ''g'' ''i-1'' ''/d'' (pfxOf ''i-1'' inst1) inst1 [(''c1'', ''f1'')]) \<and>
   (\<exists>fileName t. ''/d/i-1-12compu-v1-enis''
       = Join okEnv ''/d'' (shorten (draws okEnv t) (pfxOf ''i-1'' inst1 @ fileName)))"
proof -
  have 1: "Create ''/d/i-1-12compu-v1-enis''
     \<in> set (collector okEnv ''g'' ''i-1'' ''/d'' (pfxOf ''i-1'' inst1) inst1 [(''c1'', ''f1'')])"
    by (simp add: pfxOf_inst1 collector_inst1)
  from prefix_spec [of "''i-1''" inst1 okEnv "''g''" "''/d''" "[(''c1'', ''f1'')]"]
  have "\<forall>p. (Create p \<in> set (collector okEnv ''g'' ''i-1'' ''/d'' (pfxOf ''i-1'' inst1) inst1
                               [(''c1'', ''f1'')])
          \<or> (\<exists>d \<in> set (sentOf (collector okEnv ''g'' ''i-1'' ''/d'' (pfxOf ''i-1'' inst1) inst1
                               [(''c1'', ''f1'')])).
                p \<in> set (paths d)))
        \<longrightarrow> (\<exists>fileName t.
               p = Join okEnv ''/d'' (shorten (draws okEnv t) (pfxOf ''i-1'' inst1 @ fileName)))"
    by blast
  with 1 have "\<exists>fileName t. ''/d/i-1-12compu-v1-enis''
       = Join okEnv ''/d'' (shorten (draws okEnv t) (pfxOf ''i-1'' inst1 @ fileName))"
    by blast
  with 1 show ?thesis by (simp add: pfxOf_inst1)
qed


section \<open>The state aggregator\<close>

lemma Sync_fst: "fst (Sync c s) = syncErr c (syncs s)"
  by (simp add: Sync_def split: option.splits)

lemma Sync_snd:
  "Nodes (snd (Sync c s)) = Nodes s" "received (snd (Sync c s)) = received s"
  "total (snd (Sync c s)) = total s" "events (snd (Sync c s)) = events s"
  "syncs (snd (Sync c s)) = Suc (syncs s)"
  by (simp_all add: Sync_def split: option.splits)

lemma Sync_persisted:
  "persisted (snd (Sync c s)) = (if syncErr c (syncs s) = None then Nodes s else persisted s)"
  by (simp add: Sync_def split: option.splits)

lemma merge_unknown:
  "map_of (Nodes s) (mngName d) = None \<Longrightarrow> merge c d s = Inl (UnknownGroup (mngName d))"
  by (simp add: merge_def)

lemma logsOf_known:
  "map_of nodes g = Some mv \<Longrightarrow>
     logsOf nodes g i = map_of (case Logs mv of None \<Rightarrow> [] | Some l \<Rightarrow> l) i"
  by (simp add: logsOf_def split: option.splits)

lemma merge_redundant:
  assumes "map_of (Nodes s) (mngName d) \<noteq> None"
      and "logsOf (Nodes s) (mngName d) (instanceID d) \<noteq> None"
  shows "merge c d s = Inl (Redundant (mngName d) (instanceID d))"
proof -
  from assms(1) obtain mv where mv: "map_of (Nodes s) (mngName d) = Some mv" by auto
  with assms(2) show ?thesis
    by (auto simp: merge_def Let_def logsOf_known [OF mv])
qed

lemma logsOf_update:
  "logsOf (AList.update g (mv\<lparr>Logs := Some (AList.update i ps l)\<rparr>) nodes) g' i' =
     (if g' = g then (if i' = i then Some ps else map_of l i') else logsOf nodes g' i')"
  by (simp add: logsOf_def update_conv')

lemma merge_ok:
  assumes "map_of (Nodes s) (mngName d) \<noteq> None"
      and "logsOf (Nodes s) (mngName d) (instanceID d) = None"
  shows "\<exists>s'. merge c d s = Inr s' \<and>
           (\<forall>g i. logsOf (Nodes s') g i =
              (if g = mngName d \<and> i = instanceID d then Some (paths d) else logsOf (Nodes s) g i)) \<and>
           received s' = received s \<and> events s' = events s \<and> syncs s' = Suc (syncs s) \<and>
           total s' = total s + length (paths d) \<and>
           (syncErr c (syncs s) = None \<longrightarrow> persisted s' = Nodes s')"
proof -
  from assms(1) obtain mv where mv: "map_of (Nodes s) (mngName d) = Some mv" by auto
  let ?l = "case Logs mv of None \<Rightarrow> [] | Some l \<Rightarrow> l"
  from assms(2) have none: "map_of ?l (instanceID d) = None"
    by (simp add: logsOf_known [OF mv])
  let ?nodes = "AList.update (mngName d) (mv\<lparr>Logs := Some (AList.update (instanceID d) (paths d) ?l)\<rparr>) (Nodes s)"
  let ?s2 = "snd (Sync c (s\<lparr>Nodes := ?nodes\<rparr>))"
  have m: "merge c d s = Inr (?s2\<lparr>total := total ?s2 + length (paths d)\<rparr>)"
    using mv none by (simp add: merge_def Let_def)
  have l: "logsOf ?nodes g i =
      (if g = mngName d \<and> i = instanceID d then Some (paths d) else logsOf (Nodes s) g i)" for g i
    using mv by (auto simp: logsOf_update logsOf_known)
  show ?thesis
    unfolding m using l
    by (auto simp: Sync_snd Sync_persisted)
qed

lemma merge_cases:
  "(map_of (Nodes s) (mngName d) = None \<or> logsOf (Nodes s) (mngName d) (instanceID d) \<noteq> None)
     \<longleftrightarrow> (\<exists>er. merge c d s = Inl er)"
proof (cases "map_of (Nodes s) (mngName d) = None")
  case True
  then show ?thesis by (simp add: merge_unknown)
next
  case False
  show ?thesis
  proof (cases "logsOf (Nodes s) (mngName d) (instanceID d) = None")
    case True
    from merge_ok [OF False True, of c] show ?thesis using False True by auto
  next
    case False2: False
    from merge_redundant [OF False False2, of c] show ?thesis using False2 by auto
  qed
qed

text \<open>
  C1. When the drain loop takes a record without error, the run ends with a hard error
  exactly when the group name of the record is not a key of Fleet Status or the
  instance ID of the record already has an entry under that group: the error names the
  unknown group, or the redundant instance, and the state is the one before the record
  but for the count of received records, so no entry is overwritten and none is added.
  Otherwise the entry is added and the loop goes on.
\<close>

theorem merge_spec:
  assumes "err d = None"
  shows "if map_of (Nodes s) (mngName d) = None
            \<or> logsOf (Nodes s) (mngName d) (instanceID d) \<noteq> None
         then drain c (Suc n) (Recv d # arr) s =
                Returned AtViolation
                  (Some (if map_of (Nodes s) (mngName d) = None then UnknownGroup (mngName d)
                         else Redundant (mngName d) (instanceID d)))
                  (s\<lparr>received := Suc (received s)\<rparr>)
         else (\<exists>s'. merge c d (s\<lparr>received := Suc (received s)\<rparr>) = Inr s' \<and>
                 drain c (Suc n) (Recv d # arr) s = drain c n arr s' \<and>
                 (\<forall>g i. logsOf (Nodes s') g i =
                    (if g = mngName d \<and> i = instanceID d then Some (paths d)
                     else logsOf (Nodes s) g i)))"
proof -
  let ?s1 = "s\<lparr>received := Suc (received s)\<rparr>"
  have N: "Nodes ?s1 = Nodes s" by simp
  show ?thesis
  proof (cases "map_of (Nodes s) (mngName d) = None")
    case True
    then have "merge c d ?s1 = Inl (UnknownGroup (mngName d))"
      by (simp add: merge_unknown)
    with True assms show ?thesis by (simp add: Let_def)
  next
    case False
    show ?thesis
    proof (cases "logsOf (Nodes s) (mngName d) (instanceID d) = None")
      case True
      from merge_ok [of ?s1 d c] False True
      obtain s' where s': "merge c d ?s1 = Inr s'"
        "\<forall>g i. logsOf (Nodes s') g i =
              (if g = mngName d \<and> i = instanceID d then Some (paths d) else logsOf (Nodes s) g i)"
        by auto
      have "drain c (Suc n) (Recv d # arr) s = drain c n arr s'"
        using assms s'(1) by (simp add: Let_def)
      with s' False True show ?thesis by auto
    next
      case False2: False
      have "merge c d ?s1 = Inl (Redundant (mngName d) (instanceID d))"
        using merge_redundant [of ?s1 d c] False False2 by simp
      with False False2 assms show ?thesis by (simp add: Let_def)
    qed
  qed
qed

lemma st2_known: "map_of (Nodes st2) ''g1'' \<noteq> None" "logsOf (Nodes st2) ''g1'' ''i-1'' \<noteq> None"
  by (simp_all add: st2_def nodes2_def logsOf_def)

lemma st1_known: "map_of (Nodes st1) ''g1'' \<noteq> None" "logsOf (Nodes st1) ''g1'' ''i-1'' = None"
  "map_of (Nodes st1) ''g9'' = None"
  by (simp_all add: st1_def nodes1_def logsOf_def)

theorem merge_spec_witness:
  "err recOK = None \<and> err recStray = None \<and>
   drain cfg1 2 [Recv recOK, Recv recFailed] st2 =
     Returned AtViolation (Some (Redundant ''g1'' ''i-1'')) (st2\<lparr>received := 1\<rparr>) \<and>
   drain cfg1 2 [Recv recStray, Recv recFailed] st1 =
     Returned AtViolation (Some (UnknownGroup ''g9'')) (st1\<lparr>received := 1\<rparr>) \<and>
   (\<exists>s'. drain cfg1 2 [Recv recOK, Recv recFailed] st1 = drain cfg1 1 [Recv recFailed] s' \<and>
         logsOf (Nodes s') ''g1'' ''i-1'' = Some [''/d/f1''])"
proof -
  have e: "err recOK = None" "err recStray = None"
    by (simp_all add: recOK_def recStray_def)
  have f: "mngName recOK = ''g1''" "instanceID recOK = ''i-1''" "mngName recStray = ''g9''"
    "paths recOK = [''/d/f1'']" "received st1 = 0" "received st2 = 0"
    by (simp_all add: recOK_def recStray_def st1_def st2_def)
  have two: "(2::nat) = Suc 1" by simp
  from merge_spec [OF e(1), of st2 cfg1 1 "[Recv recFailed]"] st2_known
  have 1: "drain cfg1 2 [Recv recOK, Recv recFailed] st2 =
     Returned AtViolation (Some (Redundant ''g1'' ''i-1'')) (st2\<lparr>received := 1\<rparr>)"
    unfolding two by (simp add: f)
  from merge_spec [OF e(2), of st1 cfg1 1 "[Recv recFailed]"] st1_known
  have 2: "drain cfg1 2 [Recv recStray, Recv recFailed] st1 =
     Returned AtViolation (Some (UnknownGroup ''g9'')) (st1\<lparr>received := 1\<rparr>)"
    unfolding two by (simp add: f)
  from merge_spec [OF e(1), of st1 cfg1 1 "[Recv recFailed]"] st1_known
  have 3: "\<exists>s'. drain cfg1 2 [Recv recOK, Recv recFailed] st1 = drain cfg1 1 [Recv recFailed] s' \<and>
         logsOf (Nodes s') ''g1'' ''i-1'' = Some [''/d/f1'']"
    unfolding two by (auto simp: f)
  from e 1 2 3 show ?thesis by simp
qed

lemma drain_error_record:
  "err d \<noteq> None \<Longrightarrow>
     drain c (Suc n) (Recv d # arr) s = drain c n arr (s\<lparr>received := Suc (received s)\<rparr>)"
  by (simp add: Let_def)

lemma drain_all_errors:
  "\<forall>d \<in> set ds. err d \<noteq> None \<Longrightarrow>
     drain c (length ds) (map Recv ds) s =
       Returned AtEnd (syncErr c (syncs s)) (snd (Sync c (s\<lparr>received := received s + length ds\<rparr>)))"
proof (induction ds arbitrary: s)
  case Nil
  show ?case by (simp add: Sync_fst [symmetric] split: prod.splits)
next
  case (Cons d ds)
  then have "err d \<noteq> None" and rest: "\<forall>d \<in> set ds. err d \<noteq> None" by auto
  show ?case
    using Cons.IH [OF rest, of "s\<lparr>received := Suc (received s)\<rparr>"] \<open>err d \<noteq> None\<close>
    by (simp add: Let_def)
qed

text \<open>
  C5. A record with an error changes nothing but the count of received records: Fleet
  Status is as before, no \<open>Sync\<close> is made, and the loop goes on with the next record.
  A run whose records all carry errors ends after the loop and returns what the final
  \<open>Sync\<close> returns, with Fleet Status unchanged.
\<close>

theorem error_record_skipped:
  "(err d \<noteq> None \<longrightarrow>
      drain c (Suc n) (Recv d # arr) s = drain c n arr (s\<lparr>received := Suc (received s)\<rparr>)) \<and>
   ((\<forall>d' \<in> set ds. err d' \<noteq> None) \<longrightarrow>
      drain c (length ds) (map Recv ds) s =
        Returned AtEnd (syncErr c (syncs s))
          (snd (Sync c (s\<lparr>received := received s + length ds\<rparr>))) \<and>
      Nodes (snd (Sync c (s\<lparr>received := received s + length ds\<rparr>))) = Nodes s)"
  using drain_error_record [of d c n arr s] drain_all_errors [of ds c s]
  by (simp add: Sync_snd)

theorem error_record_skipped_witness:
  "err recFailed \<noteq> None \<and>
   drain cfg1 2 [Recv recFailed, Recv recOK] st1 = drain cfg1 1 [Recv recOK] (st1\<lparr>received := 1\<rparr>) \<and>
   drain cfg1 2 [Recv recFailed, Recv recFailed] st1 =
     Returned AtEnd None (st1\<lparr>received := 2, syncs := 1, persisted := nodes1\<rparr>)"
proof -
  have e: "err recFailed \<noteq> None" by (simp add: recFailed_def)
  have two: "(2::nat) = Suc 1" by simp
  have 1: "drain cfg1 2 [Recv recFailed, Recv recOK] st1
             = drain cfg1 1 [Recv recOK] (st1\<lparr>received := 1\<rparr>)"
    using error_record_skipped [of recFailed cfg1 1 "[Recv recOK]" st1 "[]"] e
    unfolding two by (simp add: st1_def)
  have "drain cfg1 (length [recFailed, recFailed]) (map Recv [recFailed, recFailed]) st1 =
        Returned AtEnd (syncErr cfg1 (syncs st1))
          (snd (Sync cfg1 (st1\<lparr>received := received st1 + length [recFailed, recFailed]\<rparr>)))"
    using error_record_skipped [of recFailed cfg1 0 "[]" st1 "[recFailed, recFailed]"] e
    by simp
  then have 2: "drain cfg1 2 [Recv recFailed, Recv recFailed] st1 =
     Returned AtEnd None (st1\<lparr>received := 2, syncs := 1, persisted := nodes1\<rparr>)"
    by (simp add: st1_def Sync_def cfg1_def noSyncErr_def numeral_2_eq_2)
  from e 1 2 show ?thesis by simp
qed

section \<open>The drain loop\<close>

lemma Sync_result:
  "\<exists>r s'. Sync c s = (r, s') \<and> r = syncErr c (syncs s) \<and> Nodes s' = Nodes s \<and>
      received s' = received s \<and> total s' = total s \<and> events s' = events s \<and>
      syncs s' = Suc (syncs s) \<and> (r = None \<longrightarrow> persisted s' = Nodes s)"
  by (cases "syncErr c (syncs s)") (simp_all add: Sync_def)

lemma drain_no_stop:
  "Stop \<notin> set (take n arr) \<Longrightarrow> n \<le> length arr \<Longrightarrow>
     (\<exists>er s'. drain c n arr s = Returned AtViolation (Some er) s' \<and> received s' \<le> received s + n)
     \<or> (\<exists>r s'. drain c n arr s = Returned AtEnd r s' \<and> received s' = received s + n)"
proof (induction c n arr s rule: drain.induct)
  case (1 c arr s)
  obtain r s' where "Sync c s = (r, s')" "received s' = received s"
    using Sync_result [of c s] by (elim exE conjE) (rule that)
  then show ?case by simp
next
  case (2 c n s)
  then show ?case by simp
next
  case (3 c n arr s)
  then show ?case by simp
next
  case (4 c n d arr s)
  let ?s1 = "s\<lparr>received := Suc (received s)\<rparr>"
  from 4(3,4) have pre: "Stop \<notin> set (take n arr)" "n \<le> length arr" by auto
  show ?case
  proof (cases "err d \<noteq> None")
    case True
    from 4(1) [OF refl True pre] True show ?thesis by (auto simp: Let_def)
  next
    case False
    show ?thesis
    proof (cases "merge c d ?s1")
      case (Inl er)
      with False show ?thesis by (simp add: Let_def)
    next
      case (Inr s2)
      have "received s2 = Suc (received s)"
        using merge_ok [of ?s1 d c] merge_cases [of ?s1 d c] Inr by auto
      with 4(2) [OF refl False Inr pre] False Inr show ?thesis by (auto simp: Let_def)
    qed
  qed
qed

lemma drain_stop:
  "Stop \<notin> set pre \<Longrightarrow> length pre < n \<Longrightarrow>
     (\<exists>er s'. drain c n (pre @ Stop # rest) s = Returned AtViolation (Some er) s')
     \<or> (\<exists>r s'. drain c n (pre @ Stop # rest) s = Returned AtStop r s' \<and>
           r = syncErr c (syncs s' - 1) \<and>
           received s' = received s + length pre \<and>
           (\<forall>d. Recv d \<in> set pre \<and> err d = None \<longrightarrow>
               logsOf (Nodes s') (mngName d) (instanceID d) = Some (paths d)) \<and>
           (\<forall>g i ps. logsOf (Nodes s) g i = Some ps \<longrightarrow> logsOf (Nodes s') g i = Some ps) \<and>
           (r = None \<longrightarrow> persisted s' = Nodes s'))"
proof (induction pre arbitrary: n s)
  case Nil
  then obtain m where n: "n = Suc m" by (cases n) auto
  obtain r s' where "Sync c s = (r, s')" "r = syncErr c (syncs s)" "Nodes s' = Nodes s"
    "received s' = received s" "syncs s' = Suc (syncs s)" "r = None \<longrightarrow> persisted s' = Nodes s"
    using Sync_result [of c s] by (elim exE conjE) (rule that)
  then show ?case unfolding n by simp
next
  case (Cons a pre)
  then obtain m where n: "n = Suc m" by (cases n) auto
  from Cons.prems obtain d where a: "a = Recv d" by (cases a) auto
  from Cons.prems n have pre: "Stop \<notin> set pre" "length pre < m" by auto
  let ?s1 = "s\<lparr>received := Suc (received s)\<rparr>"
  show ?case
  proof (cases "err d \<noteq> None")
    case True
    have eq: "drain c n ((a # pre) @ Stop # rest) s = drain c m (pre @ Stop # rest) ?s1"
      using True by (simp add: n a Let_def)
    from Cons.IH [OF pre, of ?s1] True a show ?thesis unfolding eq by auto
  next
    case False
    show ?thesis
    proof (cases "merge c d ?s1")
      case (Inl er)
      with False show ?thesis by (simp add: n a Let_def)
    next
      case (Inr s2)
      have eq: "drain c n ((a # pre) @ Stop # rest) s = drain c m (pre @ Stop # rest) s2"
        using False Inr by (simp add: n a Let_def)
      from merge_ok [of ?s1 d c] merge_cases [of ?s1 d c] Inr
      have s2: "\<forall>g i. logsOf (Nodes s2) g i =
              (if g = mngName d \<and> i = instanceID d then Some (paths d) else logsOf (Nodes s) g i)"
           "received s2 = Suc (received s)"
           "logsOf (Nodes s) (mngName d) (instanceID d) = None"
        by auto
      have keep: "logsOf (Nodes s) g i = Some ps \<Longrightarrow> logsOf (Nodes s2) g i = Some ps" for g i ps
        using s2(1,3) by auto
      have new: "logsOf (Nodes s2) (mngName d) (instanceID d) = Some (paths d)"
        using s2(1) by simp
      from Cons.IH [OF pre, of s2]
      show ?thesis
      proof
        assume "\<exists>er s'. drain c m (pre @ Stop # rest) s2 = Returned AtViolation (Some er) s'"
        then show ?thesis unfolding eq by blast
      next
        assume "\<exists>r s'. drain c m (pre @ Stop # rest) s2 = Returned AtStop r s' \<and>
           r = syncErr c (syncs s' - 1) \<and>
           received s' = received s2 + length pre \<and>
           (\<forall>d. Recv d \<in> set pre \<and> err d = None \<longrightarrow>
               logsOf (Nodes s') (mngName d) (instanceID d) = Some (paths d)) \<and>
           (\<forall>g i ps. logsOf (Nodes s2) g i = Some ps \<longrightarrow> logsOf (Nodes s') g i = Some ps) \<and>
           (r = None \<longrightarrow> persisted s' = Nodes s')"
        then obtain r s' where R: "drain c m (pre @ Stop # rest) s2 = Returned AtStop r s'"
           "r = syncErr c (syncs s' - 1)"
           "received s' = received s2 + length pre"
           "\<forall>d. Recv d \<in> set pre \<and> err d = None \<longrightarrow>
               logsOf (Nodes s') (mngName d) (instanceID d) = Some (paths d)"
           "\<forall>g i ps. logsOf (Nodes s2) g i = Some ps \<longrightarrow> logsOf (Nodes s') g i = Some ps"
           "r = None \<longrightarrow> persisted s' = Nodes s'"
          by (elim exE conjE) (rule that)
        have "\<forall>d'. Recv d' \<in> set (a # pre) \<and> err d' = None \<longrightarrow>
               logsOf (Nodes s') (mngName d') (instanceID d') = Some (paths d')"
          using R(4,5) new a by auto
        moreover have "\<forall>g i ps. logsOf (Nodes s) g i = Some ps \<longrightarrow> logsOf (Nodes s') g i = Some ps"
          using R(5) keep by blast
        moreover have "received s' = received s + length (a # pre)"
          using R(3) s2(2) by simp
        ultimately show ?thesis unfolding eq using R(1,2,6)
          by (intro disjI2 exI [of _ r] exI [of _ s'] conjI) simp_all
      qed
    qed
  qed
qed

lemma drain_events: "events (stateOf (drain c n arr s)) = events s"
proof (induction c n arr s rule: drain.induct)
  case (1 c arr s)
  obtain r s' where "Sync c s = (r, s')" "events s' = events s"
    using Sync_result [of c s] by (elim exE conjE) (rule that)
  then show ?case by simp
next
  case (2 c n s)
  show ?case by simp
next
  case (3 c n arr s)
  obtain r s' where "Sync c s = (r, s')" "events s' = events s"
    using Sync_result [of c s] by (elim exE conjE) (rule that)
  then show ?case by simp
next
  case (4 c n d arr s)
  let ?s1 = "s\<lparr>received := Suc (received s)\<rparr>"
  show ?case
  proof (cases "err d \<noteq> None")
    case True
    from 4(1) [OF refl True] True show ?thesis by (simp add: Let_def)
  next
    case False
    show ?thesis
    proof (cases "merge c d ?s1")
      case (Inl er)
      with False show ?thesis by (simp add: Let_def)
    next
      case (Inr s2)
      have "events s2 = events s"
        using merge_ok [of ?s1 d c] merge_cases [of ?s1 d c] Inr by auto
      with 4(2) [OF refl False Inr] False Inr show ?thesis by (simp add: Let_def)
    qed
  qed
qed

lemma length_jobs: "length (jobs nodes) = waitsOf nodes"
  by (induction nodes) (auto simp: jobs_def waitsOf_def)

lemma waitsOf_sum: "waitsOf nodes = sum_list (map (\<lambda>g. length (Instances (snd g))) nodes)"
  by (simp add: waitsOf_def case_prod_unfold)

lemma fetchLogs_drain:
  assumes "tempDir c (LogDir c) (Name c @ ''-mng-logs'') = Inr logsDir"
  shows "\<exists>s1. fetchLogs c cmds s =
            drain c (waitsOf (Nodes s))
              (sched c (concat (map (sentBy c logsDir cmds) (jobs (Nodes s))))) s1 \<and>
          Nodes s1 = Nodes s \<and> received s1 = 0 \<and>
          events s1 = events s @ TempDir (LogDir c) (Name c @ ''-mng-logs'')
                        # map (\<lambda>(name, instID, iv). Launch name instID) (jobs (Nodes s))"
proof -
  let ?s1 = "s\<lparr>events := events s @ TempDir (LogDir c) (Name c @ ''-mng-logs'')
                        # map (\<lambda>(name, instID, iv). Launch name instID) (jobs (Nodes s)),
               received := 0, total := 0\<rparr>"
  have "fetchLogs c cmds s =
          drain c (waitsOf (Nodes s))
            (sched c (concat (map (sentBy c logsDir cmds) (jobs (Nodes s))))) ?s1"
    using assms by (simp add: fetchLogs_def Let_def)
  then show ?thesis by (intro exI [of _ ?s1]) simp
qed

text \<open>
  C4 (as amended). The number of iterations of the drain loop is the sum of the numbers
  of instances of the groups, which is also the number of collectors started. When no
  stop signal is received in these iterations and no invariant violation ends the run,
  the loop receives exactly that many records and the run ends after the loop. When the
  stop signal is received after some records, and no invariant violation ended the run
  before, the run returns the result of the \<open>Sync\<close> made at that moment; every record
  without error received before has its entry in Fleet Status, every entry that was
  there at the start is still there, and Fleet Status is what was stored when that
  \<open>Sync\<close> succeeded.
\<close>

theorem drain_count:
  assumes td: "tempDir c (LogDir c) (Name c @ ''-mng-logs'') = Inr logsDir"
      and arr: "arr = sched c (concat (map (sentBy c logsDir cmds) (jobs (Nodes s))))"
  shows
    "(Stop \<notin> set (take (waitsOf (Nodes s)) arr) \<and> waitsOf (Nodes s) \<le> length arr \<and>
      exitOf (fetchLogs c cmds s) \<noteq> Some AtViolation \<longrightarrow>
        exitOf (fetchLogs c cmds s) = Some AtEnd \<and>
        received (stateOf (fetchLogs c cmds s)) = waitsOf (Nodes s)) \<and>
     (\<forall>pre rest.
        arr = pre @ Stop # rest \<and> Stop \<notin> set pre \<and> length pre < waitsOf (Nodes s) \<and>
        exitOf (fetchLogs c cmds s) \<noteq> Some AtViolation \<longrightarrow>
          (\<exists>r s'. fetchLogs c cmds s = Returned AtStop r s' \<and>
             r = syncErr c (syncs s' - 1) \<and>
             received s' = length pre \<and>
             (\<forall>d. Recv d \<in> set pre \<and> err d = None \<longrightarrow>
                logsOf (Nodes s') (mngName d) (instanceID d) = Some (paths d)) \<and>
             (\<forall>g i ps. logsOf (Nodes s) g i = Some ps \<longrightarrow> logsOf (Nodes s') g i = Some ps) \<and>
             (r = None \<longrightarrow> persisted s' = Nodes s'))) \<and>
     waitsOf (Nodes s) = sum_list (map (\<lambda>g. length (Instances (snd g))) (Nodes s)) \<and>
     length (jobs (Nodes s)) = waitsOf (Nodes s)"
proof -
  from fetchLogs_drain [OF td, of cmds s] arr
  obtain s1 where s1: "fetchLogs c cmds s = drain c (waitsOf (Nodes s)) arr s1"
    "Nodes s1 = Nodes s" "received s1 = 0"
    by auto
  have A: "exitOf (fetchLogs c cmds s) = Some AtEnd \<and>
        received (stateOf (fetchLogs c cmds s)) = waitsOf (Nodes s)"
    if "Stop \<notin> set (take (waitsOf (Nodes s)) arr)" "waitsOf (Nodes s) \<le> length arr"
       "exitOf (fetchLogs c cmds s) \<noteq> Some AtViolation"
    using drain_no_stop [OF that(1,2), of c s1] that(3) s1 by auto
  have B: "\<exists>r s'. fetchLogs c cmds s = Returned AtStop r s' \<and>
             r = syncErr c (syncs s' - 1) \<and>
             received s' = length pre \<and>
             (\<forall>d. Recv d \<in> set pre \<and> err d = None \<longrightarrow>
                logsOf (Nodes s') (mngName d) (instanceID d) = Some (paths d)) \<and>
             (\<forall>g i ps. logsOf (Nodes s) g i = Some ps \<longrightarrow> logsOf (Nodes s') g i = Some ps) \<and>
             (r = None \<longrightarrow> persisted s' = Nodes s')"
    if "arr = pre @ Stop # rest" "Stop \<notin> set pre" "length pre < waitsOf (Nodes s)"
       "exitOf (fetchLogs c cmds s) \<noteq> Some AtViolation" for pre rest
    using drain_stop [OF that(2,3), of c rest s1] that(1,4) s1 by auto
  show ?thesis
    using A B length_jobs [of "Nodes s"] waitsOf_sum [of "Nodes s"] by blast
qed

lemma dnsPart_inst1: "dnsPart (PublicDNSName inst1) = ''12compu''"
  by code_simp

lemma pfxOf_inst1': "pfxOf i inst1 = i @ ''-12compu-''"
  by (simp add: pfxOf_def dnsPart_inst1)

lemma quiet_maps: "svcCmdToFileName [] = []" "varLogCmdToFileName [] = []"
  by (simp_all add: svcCmdToFileName_def varLogCmdToFileName_def SplitLines_def svcLine_def
        Fields_def)

lemma collector_quiet:
  "length i < 200 \<Longrightarrow>
   sentOf (collector quietEnv g i ''/logs/eks-mng-logs'' (i @ ''-12compu-'') iv []) = [recOf g i]"
  by (simp add: collector_def stages_def fetchFile_def gatedRun_def saveFile_def gate_def
        shorten_def quietEnv_def okEnv_def Let_def quiet_maps recOf_def)

lemma sentBy_cfg1:
  "length i < 200 \<Longrightarrow> sentBy cfg1 ''/logs/eks-mng-logs'' [] (g, i, inst1) = [recOf g i]"
  "length i < 200 \<Longrightarrow> sentBy cfgStop ''/logs/eks-mng-logs'' [] (g, i, inst1) = [recOf g i]"
  by (simp_all add: sentBy_def cfg1_def cfgStop_def pfxOf_inst1' collector_quiet)

lemma jobs_nodes:
  "jobs nodes1 = [(''g1'', ''i-1'', inst1), (''g1'', ''i-2'', inst1), (''g2'', ''i-3'', inst1)]"
  "jobs nodes2 = [(''g1'', ''i-1'', inst1), (''g1'', ''i-2'', inst1), (''g2'', ''i-3'', inst1)]"
  "waitsOf nodes1 = 3" "waitsOf nodes2 = 3"
  by (simp_all add: jobs_def waitsOf_def nodes1_def nodes2_def)

lemma cfg1_simps:
  "Enable cfg1" "LogDir cfg1 = ''/logs''" "Name cfg1 = ''eks''" "mkdirAll cfg1 d m = None"
  "tempDir cfg1 d p = Inr (d @ ''/'' @ p)" "sched cfg1 = map Recv" "syncErr cfg1 = noSyncErr"
  "\<not> Enable cfgOff"
  "LogDir cfgStop = ''/logs''" "Name cfgStop = ''eks''"
  "tempDir cfgStop d p = Inr (d @ ''/'' @ p)" "sched cfgStop = stopAfterOne"
  "syncErr cfgStop = noSyncErr"
  by (simp_all add: cfg1_def cfgStop_def cfgOff_def)

lemma fetch_start:
  "fetchLogs cfg1 [] st1 =
     drain cfg1 3 [Recv (recOf ''g1'' ''i-1''), Recv (recOf ''g1'' ''i-2''), Recv (recOf ''g2'' ''i-3'')]
       (st1\<lparr>events := [TempDir ''/logs'' ''eks-mng-logs'', Launch ''g1'' ''i-1'',
                        Launch ''g1'' ''i-2'', Launch ''g2'' ''i-3'']\<rparr>)"
  "fetchLogs cfg1 [] st2 =
     drain cfg1 3 [Recv (recOf ''g1'' ''i-1''), Recv (recOf ''g1'' ''i-2''), Recv (recOf ''g2'' ''i-3'')]
       (st2\<lparr>events := [TempDir ''/logs'' ''eks-mng-logs'', Launch ''g1'' ''i-1'',
                        Launch ''g1'' ''i-2'', Launch ''g2'' ''i-3'']\<rparr>)"
  "fetchLogs cfgStop [] st1 =
     drain cfgStop 3 [Recv (recOf ''g1'' ''i-1''), Stop]
       (st1\<lparr>events := [TempDir ''/logs'' ''eks-mng-logs'', Launch ''g1'' ''i-1'',
                        Launch ''g1'' ''i-2'', Launch ''g2'' ''i-3'']\<rparr>)"
  by (simp_all add: fetchLogs_def Let_def cfg1_simps st1_def st2_def jobs_nodes sentBy_cfg1
        stopAfterOne_def)

lemma run_again:
  "fetchLogs cfg1 [] st2 =
     Returned AtViolation (Some (Redundant ''g1'' ''i-1''))
       (st2\<lparr>events := [TempDir ''/logs'' ''eks-mng-logs'', Launch ''g1'' ''i-1'',
                        Launch ''g1'' ''i-2'', Launch ''g2'' ''i-3''],
            received := 1\<rparr>)"
  unfolding fetch_start by (simp add: eval_nat_numeral Let_def merge_def recOf_def st2_def nodes2_def)

lemma run_full_exit: "exitOf (fetchLogs cfg1 [] st1) = Some AtEnd"
  unfolding fetch_start by (simp add: eval_nat_numeral Let_def merge_def recOf_def st1_def nodes1_def
        Sync_def cfg1_simps noSyncErr_def)

lemma run_stop_exit: "exitOf (fetchLogs cfgStop [] st1) = Some AtStop"
  unfolding fetch_start by (simp add: eval_nat_numeral Let_def merge_def recOf_def st1_def nodes1_def
        Sync_def cfg1_simps noSyncErr_def)

theorem drain_count_witness:
  "Stop \<notin> set (take 3 (sched cfg1 (concat (map (sentBy cfg1 ''/logs/eks-mng-logs'' [])
                                 (jobs (Nodes st1)))))) \<and>
   waitsOf (Nodes st1) = 3 \<and>
   received (stateOf (fetchLogs cfg1 [] st1)) = 3 \<and>
   exitOf (fetchLogs cfgStop [] st1) = Some AtStop \<and>
   received (stateOf (fetchLogs cfgStop [] st1)) = 1 \<and>
   logsOf (Nodes (stateOf (fetchLogs cfgStop [] st1))) ''g1'' ''i-1''
     = Some [''/logs/eks-mng-logs/i-1-12compu-v1-enis'']"
proof -
  have N: "Nodes st1 = nodes1" by (simp add: st1_def)
  have td: "tempDir cfg1 (LogDir cfg1) (Name cfg1 @ ''-mng-logs'') = Inr ''/logs/eks-mng-logs''"
    "tempDir cfgStop (LogDir cfgStop) (Name cfgStop @ ''-mng-logs'') = Inr ''/logs/eks-mng-logs''"
    by (simp_all add: cfg1_simps)
  have arr1: "sched cfg1 (concat (map (sentBy cfg1 ''/logs/eks-mng-logs'' []) (jobs (Nodes st1))))
     = [Recv (recOf ''g1'' ''i-1''), Recv (recOf ''g1'' ''i-2''), Recv (recOf ''g2'' ''i-3'')]"
    by (simp add: N jobs_nodes sentBy_cfg1 cfg1_simps)
  have arr2: "sched cfgStop (concat (map (sentBy cfgStop ''/logs/eks-mng-logs'' []) (jobs (Nodes st1))))
     = [Recv (recOf ''g1'' ''i-1'')] @ Stop # []"
    by (simp add: N jobs_nodes sentBy_cfg1 cfg1_simps stopAfterOne_def)
  have w: "waitsOf (Nodes st1) = 3" by (simp add: N jobs_nodes)
  have ns: "Stop \<notin> set (take 3 (sched cfg1 (concat (map (sentBy cfg1 ''/logs/eks-mng-logs'' [])
                                 (jobs (Nodes st1))))))"
    unfolding arr1 by simp
  from drain_count [where c = cfg1 and cmds = "[]" and s = st1, OF td(1) refl]
  have 1: "received (stateOf (fetchLogs cfg1 [] st1)) = 3"
    using ns run_full_exit unfolding w arr1 by simp
  from drain_count [where c = cfgStop and cmds = "[]" and s = st1, OF td(2) refl]
  have "\<forall>pre rest.
        sched cfgStop (concat (map (sentBy cfgStop ''/logs/eks-mng-logs'' []) (jobs (Nodes st1))))
          = pre @ Stop # rest \<and> Stop \<notin> set pre \<and> length pre < waitsOf (Nodes st1) \<and>
        exitOf (fetchLogs cfgStop [] st1) \<noteq> Some AtViolation \<longrightarrow>
          (\<exists>r s'. fetchLogs cfgStop [] st1 = Returned AtStop r s' \<and>
             r = syncErr cfgStop (syncs s' - 1) \<and>
             received s' = length pre \<and>
             (\<forall>d. Recv d \<in> set pre \<and> err d = None \<longrightarrow>
                logsOf (Nodes s') (mngName d) (instanceID d) = Some (paths d)) \<and>
             (\<forall>g i ps. logsOf (Nodes st1) g i = Some ps \<longrightarrow> logsOf (Nodes s') g i = Some ps) \<and>
             (r = None \<longrightarrow> persisted s' = Nodes s'))"
    by (elim conjE) assumption
  from this [rule_format, of "[Recv (recOf ''g1'' ''i-1'')]" "[]"] arr2 w run_stop_exit
  obtain r s' where R: "fetchLogs cfgStop [] st1 = Returned AtStop r s'"
     "received s' = 1"
     "\<forall>d. Recv d \<in> set [Recv (recOf ''g1'' ''i-1'')] \<and> err d = None \<longrightarrow>
                logsOf (Nodes s') (mngName d) (instanceID d) = Some (paths d)"
    by auto
  from R(3) have "logsOf (Nodes s') ''g1'' ''i-1'' = Some [''/logs/eks-mng-logs/i-1-12compu-v1-enis'']"
    by (simp add: recOf_def)
  with R(1,2) ns 1 w show ?thesis by simp
qed

text \<open>
  C4 as first worded fails when the run ends at an invariant violation: on a fleet of
  three instances of which one was collected before, no stop signal comes and the loop
  ends after one record.
\<close>

theorem drain_count_counterexample:
  "Stop \<notin> set (sched cfg1 (concat (map (sentBy cfg1 ''/logs/eks-mng-logs'' []) (jobs (Nodes st2))))) \<and>
   waitsOf (Nodes st2) = 3 \<and>
   received (stateOf (fetchLogs cfg1 [] st2)) = 1 \<and>
   exitOf (fetchLogs cfg1 [] st2) = Some AtViolation"
  by (auto simp: run_again cfg1_simps) (simp_all add: st2_def jobs_nodes)

section \<open>The entry point\<close>

lemma fetchLogs_events:
  "events (stateOf (fetchLogs c cmds s)) =
     events s @ TempDir (LogDir c) (Name c @ ''-mng-logs'')
       # (case tempDir c (LogDir c) (Name c @ ''-mng-logs'') of
            Inl er \<Rightarrow> []
          | Inr logsDir \<Rightarrow> map (\<lambda>(name, instID, iv). Launch name instID) (jobs (Nodes s)))"
proof (cases "tempDir c (LogDir c) (Name c @ ''-mng-logs'')")
  case (Inl er)
  then show ?thesis by (simp add: fetchLogs_def Let_def)
next
  case (Inr logsDir)
  from fetchLogs_drain [OF Inr, of cmds s] Inr show ?thesis
    by (auto simp: drain_events)
qed

lemma stateOf_unlocked:
  "events (stateOf (unlocked out)) =
     events (stateOf out) @ (case out of Returned x r s' \<Rightarrow> [Unlock] | Blocked s' \<Rightarrow> [])"
  by (cases out) simp_all

lemma unlocked_case:
  "(case unlocked out of Returned x r s' \<Rightarrow> a | Blocked s' \<Rightarrow> b)
     = (case out of Returned x r s' \<Rightarrow> a | Blocked s' \<Rightarrow> b)"
  by (cases out) simp_all

text \<open>
  C10. With the add-on disabled \<open>FetchLogs\<close> returns an error at once and the state is
  untouched: no directory is made, the lock is not taken, no collector is started and
  Fleet Status is as before. With the add-on enabled it first makes the log directory
  with mode 0700; when that fails it returns the error without taking the lock; when
  it succeeds it takes the lock, runs the whole collection (the run directory and the
  launches are the only other events) and releases the lock when the collection
  returns.
\<close>

theorem FetchLogs_spec:
  "(\<not> Enable c \<longrightarrow> FetchLogs c s = Returned AtSetup (Some (NotEnabled False)) s) \<and>
   (Enable c \<and> mkdirAll c (LogDir c) 448 \<noteq> None \<longrightarrow>
      FetchLogs c s = Returned AtSetup (mkdirAll c (LogDir c) 448)
                        (s\<lparr>events := events s @ [MkdirAll (LogDir c) 448]\<rparr>)) \<and>
   (Enable c \<and> mkdirAll c (LogDir c) 448 = None \<longrightarrow>
      FetchLogs c s =
        unlocked (fetchLogs c logCmds (s\<lparr>events := events s @ [MkdirAll (LogDir c) 448, Lock]\<rparr>)) \<and>
      events (stateOf (FetchLogs c s)) =
        events s @ [MkdirAll (LogDir c) 448, Lock]
          @ TempDir (LogDir c) (Name c @ ''-mng-logs'')
            # (case tempDir c (LogDir c) (Name c @ ''-mng-logs'') of
                 Inl er \<Rightarrow> []
               | Inr logsDir \<Rightarrow> map (\<lambda>(name, instID, iv). Launch name instID) (jobs (Nodes s)))
          @ (case FetchLogs c s of Returned x r s' \<Rightarrow> [Unlock] | Blocked s' \<Rightarrow> []))"
proof (intro conjI impI)
  assume "\<not> Enable c"
  then show "FetchLogs c s = Returned AtSetup (Some (NotEnabled False)) s"
    by (simp add: FetchLogs_def)
next
  assume "Enable c \<and> mkdirAll c (LogDir c) 448 \<noteq> None"
  then show "FetchLogs c s = Returned AtSetup (mkdirAll c (LogDir c) 448)
                        (s\<lparr>events := events s @ [MkdirAll (LogDir c) 448]\<rparr>)"
    by (auto simp: FetchLogs_def)
next
  assume a: "Enable c \<and> mkdirAll c (LogDir c) 448 = None"
  then show eq: "FetchLogs c s =
        unlocked (fetchLogs c logCmds (s\<lparr>events := events s @ [MkdirAll (LogDir c) 448, Lock]\<rparr>))"
    by (simp add: FetchLogs_def)
  show "events (stateOf (FetchLogs c s)) =
        events s @ [MkdirAll (LogDir c) 448, Lock]
          @ TempDir (LogDir c) (Name c @ ''-mng-logs'')
            # (case tempDir c (LogDir c) (Name c @ ''-mng-logs'') of
                 Inl er \<Rightarrow> []
               | Inr logsDir \<Rightarrow> map (\<lambda>(name, instID, iv). Launch name instID) (jobs (Nodes s)))
          @ (case FetchLogs c s of Returned x r s' \<Rightarrow> [Unlock] | Blocked s' \<Rightarrow> [])"
    unfolding eq by (simp add: stateOf_unlocked unlocked_case fetchLogs_events split: sum.splits)
qed

lemma collector_quiet_logCmds:
  "length i < 200 \<Longrightarrow>
   sentOf (collector quietEnv g i ''/logs/eks-mng-logs'' (i @ ''-12compu-'') iv logCmds) =
     [\<lparr>mngName = g, instanceID = i,
       paths = [''/logs/eks-mng-logs/'' @ i @ ''-12compu-kernel.out.log'',
                ''/logs/eks-mng-logs/'' @ i @ ''-12compu-journal.out.log'',
                ''/logs/eks-mng-logs/'' @ i @ ''-12compu-list-units-systemctl.out.log'',
                ''/logs/eks-mng-logs/'' @ i @ ''-12compu-v1-enis''],
       err = None\<rparr>]"
  by (simp add: collector_def stages_def fetchFile_def gatedRun_def saveFile_def gate_def
        shorten_def quietEnv_def okEnv_def Let_def quiet_maps logCmds_def)

lemma sentBy_cfg1_logCmds:
  "length i < 200 \<Longrightarrow>
   sentBy cfg1 ''/logs/eks-mng-logs'' logCmds (g, i, inst1) =
     [\<lparr>mngName = g, instanceID = i,
       paths = [''/logs/eks-mng-logs/'' @ i @ ''-12compu-kernel.out.log'',
                ''/logs/eks-mng-logs/'' @ i @ ''-12compu-journal.out.log'',
                ''/logs/eks-mng-logs/'' @ i @ ''-12compu-list-units-systemctl.out.log'',
                ''/logs/eks-mng-logs/'' @ i @ ''-12compu-v1-enis''],
       err = None\<rparr>]"
  by (simp add: sentBy_def cfg1_def pfxOf_inst1' collector_quiet_logCmds)

lemma FetchLogs_exit: "exitOf (FetchLogs cfg1 st1) = Some AtEnd"
proof -
  have "exitOf (fetchLogs cfg1 logCmds (st1\<lparr>events := events st1 @ [MkdirAll (LogDir cfg1) 448, Lock]\<rparr>))
          = Some AtEnd"
    by (simp add: fetchLogs_def Let_def cfg1_simps st1_def jobs_nodes sentBy_cfg1_logCmds)
       (simp add: numeral_3_eq_3 Let_def merge_def nodes1_def Sync_def noSyncErr_def cfg1_simps)
  then show ?thesis
    by (cases "fetchLogs cfg1 logCmds (st1\<lparr>events := events st1 @ [MkdirAll (LogDir cfg1) 448, Lock]\<rparr>)")
       (simp_all add: FetchLogs_def cfg1_simps)
qed

theorem FetchLogs_spec_witness:
  "\<not> Enable cfgOff \<and> FetchLogs cfgOff st1 = Returned AtSetup (Some (NotEnabled False)) st1 \<and>
   Enable cfg1 \<and> mkdirAll cfg1 (LogDir cfg1) 448 = None \<and>
   events (stateOf (FetchLogs cfg1 st1)) =
     [MkdirAll ''/logs'' 448, Lock, TempDir ''/logs'' ''eks-mng-logs'',
      Launch ''g1'' ''i-1'', Launch ''g1'' ''i-2'', Launch ''g2'' ''i-3'', Unlock]"
proof -
  have u: "(case FetchLogs cfg1 st1 of Returned x r s' \<Rightarrow> [Unlock] | Blocked s' \<Rightarrow> []) = [Unlock]"
    using FetchLogs_exit by (cases "FetchLogs cfg1 st1") simp_all
  have en: "Enable cfg1 \<and> mkdirAll cfg1 (LogDir cfg1) 448 = None" and off: "\<not> Enable cfgOff"
    by (simp_all add: cfg1_simps)
  from FetchLogs_spec [of cfg1 st1] en
  have "events (stateOf (FetchLogs cfg1 st1)) =
        events st1 @ [MkdirAll (LogDir cfg1) 448, Lock]
          @ TempDir (LogDir cfg1) (Name cfg1 @ ''-mng-logs'')
            # (case tempDir cfg1 (LogDir cfg1) (Name cfg1 @ ''-mng-logs'') of
                 Inl er \<Rightarrow> []
               | Inr logsDir \<Rightarrow> map (\<lambda>(name, instID, iv). Launch name instID) (jobs (Nodes st1)))
          @ (case FetchLogs cfg1 st1 of Returned x r s' \<Rightarrow> [Unlock] | Blocked s' \<Rightarrow> [])"
    by blast
  then have 1: "events (stateOf (FetchLogs cfg1 st1)) =
     [MkdirAll ''/logs'' 448, Lock, TempDir ''/logs'' ''eks-mng-logs'',
      Launch ''g1'' ''i-1'', Launch ''g1'' ''i-2'', Launch ''g2'' ''i-3'', Unlock]"
    unfolding u by (simp add: cfg1_simps st1_def jobs_nodes)
  from FetchLogs_spec [of cfgOff st1] off
  have 2: "FetchLogs cfgOff st1 = Returned AtSetup (Some (NotEnabled False)) st1"
    by blast
  from en off 1 2 show ?thesis by simp
qed


end
